theory Spec2Isabelle
  imports Complex_Main "HOL-Library.Log_Nat"
begin

section \<open>Numbers of the price sheet and of the form\<close>

text \<open>
  The rates and the usage quantities of \<^verbatim>\<open>app.py\<close> are Python floats. A float is
  modelled by its value: a finite rational, one of the two infinities, or NaN; the sign of
  zero is left out. The operations of this section give the result that IEEE 754 defines
  before rounding: the exact value on finite operands, and the special values as Python
  applies them. Rounding to binary64 is a separate step, \<open>round64\<close> below. The loader's
  only product is by 1024, of a number below 50, and the guard and the signs of the quote do
  not depend on rounding; the estimated cost and the monthly saving do, and are also given
  in binary64.
\<close>

datatype pyfloat = Finite rat | PosInf | NegInf | NaN

datatype error = ZeroDivisionError | OverflowError

fun isfinite :: "pyfloat \<Rightarrow> bool" where
  "isfinite (Finite x) = True"
| "isfinite PosInf = False"
| "isfinite NegInf = False"
| "isfinite NaN = False"

text \<open>\<^verbatim>\<open>a >= b\<close>, \<^verbatim>\<open>a > b\<close> and \<^verbatim>\<open>a < b\<close>: every comparison with NaN is false.\<close>

fun py_ge :: "pyfloat \<Rightarrow> pyfloat \<Rightarrow> bool" where
  "py_ge NaN b = False"
| "py_ge a NaN = False"
| "py_ge PosInf b = True"
| "py_ge a NegInf = True"
| "py_ge NegInf b = False"
| "py_ge a PosInf = False"
| "py_ge (Finite x) (Finite y) = (y \<le> x)"

fun py_gt :: "pyfloat \<Rightarrow> pyfloat \<Rightarrow> bool" where
  "py_gt NaN b = False"
| "py_gt a NaN = False"
| "py_gt a PosInf = False"
| "py_gt NegInf b = False"
| "py_gt PosInf b = True"
| "py_gt a NegInf = True"
| "py_gt (Finite x) (Finite y) = (y < x)"

definition py_lt :: "pyfloat \<Rightarrow> pyfloat \<Rightarrow> bool" where
  "py_lt a b = py_gt b a"

fun py_neg :: "pyfloat \<Rightarrow> pyfloat" where
  "py_neg (Finite x) = Finite (- x)"
| "py_neg PosInf = NegInf"
| "py_neg NegInf = PosInf"
| "py_neg NaN = NaN"

fun py_add :: "pyfloat \<Rightarrow> pyfloat \<Rightarrow> pyfloat" where
  "py_add NaN b = NaN"
| "py_add a NaN = NaN"
| "py_add PosInf NegInf = NaN"
| "py_add NegInf PosInf = NaN"
| "py_add PosInf b = PosInf"
| "py_add NegInf b = NegInf"
| "py_add a PosInf = PosInf"
| "py_add a NegInf = NegInf"
| "py_add (Finite x) (Finite y) = Finite (x + y)"

definition py_sub :: "pyfloat \<Rightarrow> pyfloat \<Rightarrow> pyfloat" where
  "py_sub a b = py_add a (py_neg b)"

text \<open>An infinity times \<open>x\<close>: NaN at zero, otherwise the infinity with the product's sign.\<close>

definition inf_times :: "bool \<Rightarrow> rat \<Rightarrow> pyfloat" where
  "inf_times positive x =
     (if x = 0 then NaN else if (0 < x) = positive then PosInf else NegInf)"

fun py_mul :: "pyfloat \<Rightarrow> pyfloat \<Rightarrow> pyfloat" where
  "py_mul NaN b = NaN"
| "py_mul a NaN = NaN"
| "py_mul PosInf PosInf = PosInf"
| "py_mul PosInf NegInf = NegInf"
| "py_mul NegInf PosInf = NegInf"
| "py_mul NegInf NegInf = PosInf"
| "py_mul PosInf (Finite y) = inf_times True y"
| "py_mul NegInf (Finite y) = inf_times False y"
| "py_mul (Finite x) PosInf = inf_times True x"
| "py_mul (Finite x) NegInf = inf_times False x"
| "py_mul (Finite x) (Finite y) = Finite (x * y)"

text \<open>
  \<^verbatim>\<open>a / b\<close>: Python raises \<^verbatim>\<open>ZeroDivisionError\<close> on a zero divisor, whatever the
  dividend; otherwise the quotient follows IEEE 754.
\<close>

fun py_truediv :: "pyfloat \<Rightarrow> pyfloat \<Rightarrow> error + pyfloat" where
  "py_truediv a (Finite y) =
     (if y = 0 then Inl ZeroDivisionError
      else Inr (case a of
                  Finite x \<Rightarrow> Finite (x / y)
                | PosInf \<Rightarrow> inf_times True y
                | NegInf \<Rightarrow> inf_times False y
                | NaN \<Rightarrow> NaN))"
| "py_truediv NaN b = Inr NaN"
| "py_truediv a NaN = Inr NaN"
| "py_truediv (Finite x) b = Inr (Finite 0)"
| "py_truediv a b = Inr NaN"



section \<open>Text of the price sheet\<close>

text \<open>
  The sheet is read with \<^verbatim>\<open>encoding='latin-1'\<close>, so every character of a description
  is one byte: a \<^typ>\<open>char\<close>. The keywords and \<^verbatim>\<open>GB\<close> are ASCII; among the bytes only
  the ASCII letters have an ASCII letter as their other case, so case folding is modelled on
  the ASCII letters and leaves every other character alone. Python's \<^verbatim>\<open>upper\<close> also
  maps a few bytes above 127, to characters that are neither \<open>G\<close> nor \<open>B\<close> and
  without parting two neighbours, so the test for \<^verbatim>\<open>GB\<close> is the same.
\<close>

definition ascii_uppercase :: string where
  "ascii_uppercase = ''ABCDEFGHIJKLMNOPQRSTUVWXYZ''"

definition ascii_lowercase :: string where
  "ascii_lowercase = ''abcdefghijklmnopqrstuvwxyz''"

definition lower_char :: "char \<Rightarrow> char" where
  "lower_char c =
     (case map_of (zip ascii_uppercase ascii_lowercase) c of Some d \<Rightarrow> d | None \<Rightarrow> c)"

definition upper_char :: "char \<Rightarrow> char" where
  "upper_char c =
     (case map_of (zip ascii_lowercase ascii_uppercase) c of Some d \<Rightarrow> d | None \<Rightarrow> c)"

definition upper :: "string \<Rightarrow> string" where
  "upper s = map upper_char s"

fun startswith :: "string \<Rightarrow> string \<Rightarrow> bool" where
  "startswith s [] = True"
| "startswith [] (k # ks) = False"
| "startswith (c # cs) (k # ks) = (c = k \<and> startswith cs ks)"

text \<open>\<^verbatim>\<open>k in s\<close>: the string \<open>k\<close> occurs in \<open>s\<close> as a contiguous substring.\<close>

fun str_in :: "string \<Rightarrow> string \<Rightarrow> bool" where
  "str_in k [] = (k = [])"
| "str_in k (c # cs) = (startswith (c # cs) k \<or> str_in k cs)"

text \<open>
  \<^verbatim>\<open>Series.str.contains('|'.join(keywords), na=False, case=False)\<close> on one cell. The
  keywords hold letters and spaces only, so the joined pattern is an alternation of literals
  and a search for it succeeds exactly when one keyword occurs in the cell, letters compared
  without case. An absent description (\<open>None\<close>, pandas' NaN) gives \<^verbatim>\<open>na=False\<close>.
\<close>

definition str_contains :: "string list \<Rightarrow> string option \<Rightarrow> bool" where
  "str_contains keywords cell =
     (case cell of
        None \<Rightarrow> False
      | Some s \<Rightarrow> list_ex (\<lambda>k. str_in (map lower_char k) (map lower_char s)) keywords)"

section \<open>Loading the rates\<close>

text \<open>
  A cell of the \<^verbatim>\<open>Unit Monthly\<close> column as read: a number (pandas also reads
  \<^verbatim>\<open>inf\<close> and \<^verbatim>\<open>nan\<close> as numbers), a text that is no number, or nothing.
\<close>

datatype cell = Number pyfloat | Text | Empty

record price_row =
  Description :: "string option"
  Unit_Monthly :: cell

text \<open>\<^verbatim>\<open>pd.to_numeric(..., errors='coerce')\<close>: what does not parse becomes NaN.\<close>

fun to_numeric :: "cell \<Rightarrow> pyfloat" where
  "to_numeric (Number v) = v"
| "to_numeric Text = NaN"
| "to_numeric Empty = NaN"

fun notna :: "pyfloat \<Rightarrow> bool" where
  "notna NaN = False"
| "notna v = True"

text \<open>
  \<^verbatim>\<open>valid\<close>: after \<^verbatim>\<open>to_numeric\<close> every cell of the column is a float, so the
  \<^verbatim>\<open>isinstance\<close> test holds on every row and \<^verbatim>\<open>notna\<close> decides.
\<close>

definition valid :: "price_row \<Rightarrow> bool" where
  "valid r = notna (to_numeric (Unit_Monthly r))"

definition DEFAULT_VM_RATE :: pyfloat where
  "DEFAULT_VM_RATE = Finite 864.35"

definition DEFAULT_STORAGE_RATE_PER_TB :: pyfloat where
  "DEFAULT_STORAGE_RATE_PER_TB = Finite 870.40"

definition DEFAULT_BANDWIDTH_RATE_PER_MBPS :: pyfloat where
  "DEFAULT_BANDWIDTH_RATE_PER_MBPS = Finite 7.50"

text \<open>
  \<^verbatim>\<open>coerce_rate\<close>: its argument is a float already, so \<^verbatim>\<open>float(val)\<close> returns it and
  the \<^verbatim>\<open>except\<close> branch is never taken.
\<close>

definition coerce_rate :: "pyfloat \<Rightarrow> pyfloat \<Rightarrow> pyfloat" where
  "coerce_rate val dflt =
     (if isfinite val \<and> py_ge val (Finite 0) then val else dflt)"

definition vm_keywords :: "string list" where
  "vm_keywords = [''Virtual'', ''Data Centre'', ''VDC'', ''VM'', ''Resource Pool'', ''Allocation'']"

definition storage_keywords :: "string list" where
  "storage_keywords = [''Storage'', ''NVME'', ''SSD'', ''vStorage'']"

definition bandwidth_keywords :: "string list" where
  "bandwidth_keywords = [''Bandwidth'', ''Internet'', ''Connectivity'', ''Mbps'', ''Network'']"

text \<open>\<^verbatim>\<open>price_df[mask & valid]\<close>: the rows kept, in the order of the sheet.\<close>

definition masked_rows :: "string list \<Rightarrow> price_row list \<Rightarrow> price_row list" where
  "masked_rows keywords price_df =
     filter (\<lambda>r. str_contains keywords (Description r) \<and> valid r) price_df"

text \<open>\<^verbatim>\<open>.iloc[0]\<close> of the rows kept, read only where they are not \<^verbatim>\<open>.empty\<close>.\<close>

definition iloc0 :: "price_row list \<Rightarrow> price_row option" where
  "iloc0 rows = (case rows of [] \<Rightarrow> None | r # _ \<Rightarrow> Some r)"

definition vm_row :: "price_row list \<Rightarrow> price_row option" where
  "vm_row price_df = iloc0 (masked_rows vm_keywords price_df)"

definition storage_row :: "price_row list \<Rightarrow> price_row option" where
  "storage_row price_df = iloc0 (masked_rows storage_keywords price_df)"

definition bandwidth_row :: "price_row list \<Rightarrow> price_row option" where
  "bandwidth_row price_df = iloc0 (masked_rows bandwidth_keywords price_df)"

definition vm_block :: "price_row list \<Rightarrow> pyfloat" where
  "vm_block price_df =
     (case vm_row price_df of
        Some r \<Rightarrow> coerce_rate (to_numeric (Unit_Monthly r)) DEFAULT_VM_RATE
      | None \<Rightarrow> DEFAULT_VM_RATE)"

text \<open>
  The description of a row kept by the mask is a string; \<^verbatim>\<open>str\<close> of it is the string
  itself.
\<close>

definition storage_block :: "price_row list \<Rightarrow> pyfloat" where
  "storage_block price_df =
     (case storage_row price_df of
        Some r \<Rightarrow>
          (let storage_price = coerce_rate (to_numeric (Unit_Monthly r)) DEFAULT_STORAGE_RATE_PER_TB;
               desc = (case Description r of Some s \<Rightarrow> s | None \<Rightarrow> ''nan'');
               rate = (if str_in ''GB'' (upper desc) \<and> py_lt storage_price (Finite 50)
                       then py_mul storage_price (Finite 1024)
                       else storage_price)
           in coerce_rate rate DEFAULT_STORAGE_RATE_PER_TB)
      | None \<Rightarrow> DEFAULT_STORAGE_RATE_PER_TB)"

definition bandwidth_block :: "price_row list \<Rightarrow> pyfloat" where
  "bandwidth_block price_df =
     (case bandwidth_row price_df of
        Some r \<Rightarrow> coerce_rate (to_numeric (Unit_Monthly r)) DEFAULT_BANDWIDTH_RATE_PER_MBPS
      | None \<Rightarrow> DEFAULT_BANDWIDTH_RATE_PER_MBPS)"

record rates =
  VM_RATE :: pyfloat
  STORAGE_RATE_PER_TB :: pyfloat
  BANDWIDTH_RATE_PER_MBPS :: pyfloat

text \<open>
  The three blocks in the order of the source, then the final \<^verbatim>\<open>coerce_rate\<close> of each
  rate. A sheet whose descriptions are all absent makes \<^verbatim>\<open>.str\<close> raise before any
  assignment; the handler keeps the initial rates, the defaults, which are the rates computed
  here for such a sheet.
\<close>

definition load_rates :: "price_row list \<Rightarrow> rates" where
  "load_rates price_df =
     \<lparr> VM_RATE = coerce_rate (vm_block price_df) DEFAULT_VM_RATE,
       STORAGE_RATE_PER_TB = coerce_rate (storage_block price_df) DEFAULT_STORAGE_RATE_PER_TB,
       BANDWIDTH_RATE_PER_MBPS =
         coerce_rate (bandwidth_block price_df) DEFAULT_BANDWIDTH_RATE_PER_MBPS \<rparr>"

definition default_rates :: rates where
  "default_rates =
     \<lparr> VM_RATE = DEFAULT_VM_RATE,
       STORAGE_RATE_PER_TB = DEFAULT_STORAGE_RATE_PER_TB,
       BANDWIDTH_RATE_PER_MBPS = DEFAULT_BANDWIDTH_RATE_PER_MBPS \<rparr>"

section \<open>Validation and the quote\<close>

text \<open>
  \<^verbatim>\<open>validate_inputs\<close> shows each message with \<^verbatim>\<open>st.error\<close> and returns a truth value;
  the model returns the messages shown, in order, with that value.
\<close>

definition validate_inputs ::
  "string \<Rightarrow> string \<Rightarrow> string \<Rightarrow> string \<Rightarrow> string \<Rightarrow> string list \<times> bool" where
  "validate_inputs company_name contact_name job_title email phone =
     (let errors =
            (if company_name = [] then [''Company Name is required.''] else [])
          @ (if contact_name = [] then [''Contact Name is required.''] else [])
          @ (if job_title = [] then [''Job Title is required.''] else [])
          @ (if email = [] then [''Email is required.'']
             else if CHR ''@'' \<notin> set email then [''Please enter a valid email address.'']
             else [])
          @ (if phone = [] then [''Phone Number is required.''] else [])
      in if errors \<noteq> [] then (errors, False) else ([], True))"

record contact =
  company_name :: string
  contact_name :: string
  job_title :: string
  email :: string
  phone :: string

text \<open>The four numbers of the form: \<^verbatim>\<open>vms\<close> is a Python int, the others are floats.\<close>

record usage =
  vms :: int
  storage :: pyfloat
  bandwidth :: pyfloat
  current_cost :: pyfloat

record quote_data =
  lekalink_cost :: pyfloat
  monthly_savings :: pyfloat
  percentage_savings :: pyfloat

text \<open>
  The three lines of the calculation on the exact operations. The guard of the division and
  the signs are read from these; \<open>lekalink_cost_float\<close> and \<open>monthly_savings_float\<close> below
  give the first two lines with the rounding of binary64.
\<close>

definition lekalink_cost_of :: "rates \<Rightarrow> usage \<Rightarrow> pyfloat" where
  "lekalink_cost_of rt u =
     py_add (py_add (py_mul (Finite (of_int (vms u))) (VM_RATE rt))
                    (py_mul (storage u) (STORAGE_RATE_PER_TB rt)))
            (py_mul (bandwidth u) (BANDWIDTH_RATE_PER_MBPS rt))"

definition monthly_savings_of :: "rates \<Rightarrow> usage \<Rightarrow> pyfloat" where
  "monthly_savings_of rt u = py_sub (current_cost u) (lekalink_cost_of rt u)"

definition percentage_savings_of :: "rates \<Rightarrow> usage \<Rightarrow> error + pyfloat" where
  "percentage_savings_of rt u =
     (if py_gt (current_cost u) (Finite 0)
      then (case py_truediv (monthly_savings_of rt u) (current_cost u) of
              Inl e \<Rightarrow> Inl e
            | Inr q \<Rightarrow> Inr (py_mul q (Finite 100)))
      else Inr (Finite 0))"

text \<open>The calculation of the button's handler, once validation has passed.\<close>

definition calculation :: "rates \<Rightarrow> usage \<Rightarrow> error + quote_data" where
  "calculation rt u =
     (case percentage_savings_of rt u of
        Inl e \<Rightarrow> Inl e
      | Inr p \<Rightarrow> Inr \<lparr> lekalink_cost = lekalink_cost_of rt u,
                     monthly_savings = monthly_savings_of rt u,
                     percentage_savings = p \<rparr>)"

datatype outcome = Rejected "string list" | Quoted quote_data

text \<open>
  The handler of the button: the calculation runs inside
  \<^verbatim>\<open>if validate_inputs(...)\<close> and nowhere else.
\<close>

definition save_me_money :: "rates \<Rightarrow> contact \<Rightarrow> usage \<Rightarrow> error + outcome" where
  "save_me_money rt c u =
     (case validate_inputs (company_name c) (contact_name c) (job_title c) (email c) (phone c) of
        (errors, False) \<Rightarrow> Inr (Rejected errors)
      | (errors, True) \<Rightarrow>
          (case calculation rt u of Inl e \<Rightarrow> Inl e | Inr q \<Rightarrow> Inr (Quoted q)))"

section \<open>Binary64\<close>

definition pow2 :: "int \<Rightarrow> rat" where
  "pow2 k = (if 0 \<le> k then 2 ^ nat k else 1 / 2 ^ nat (- k))"

text \<open>
  The exponent of a positive rational \<open>a = p / q\<close>: the \<open>e\<close> with \<open>2\<^sup>e \<le> a < 2\<^sup>e\<^sup>+\<^sup>1\<close>. The
  difference of the bit lengths of \<open>p\<close> and \<open>q\<close> is \<open>e\<close> or \<open>e + 1\<close>.
\<close>

definition floor_log2 :: "rat \<Rightarrow> int" where
  "floor_log2 a =
     (let (p, q) = quotient_of a; k = bitlen p - bitlen q
      in if pow2 k \<le> a then k else k - 1)"

text \<open>The nearest integer; a tie goes to the even one.\<close>

definition round_half_even :: "rat \<Rightarrow> int" where
  "round_half_even r =
     (let f = \<lfloor>r\<rfloor>; d = r - of_int f
      in if d < 1 / 2 then f else if 1 / 2 < d then f + 1 else if even f then f else f + 1)"

text \<open>
  Rounding to the nearest binary64 number, ties to even: 53 significant bits, exponents from
  \<open>- 1022\<close> (below it the spacing stays \<open>2\<^sup>-\<^sup>1\<^sup>0\<^sup>7\<^sup>4\<close>) to 1023; a magnitude that rounds to
  \<open>2\<^sup>1\<^sup>0\<^sup>2\<^sup>4\<close> or more overflows: \<open>None\<close> for a magnitude, an infinity for a number.
\<close>

definition round_magnitude :: "rat \<Rightarrow> rat option" where
  "round_magnitude a =
     (let e = max (floor_log2 a) (- 1022)
      in if 1024 \<le> e then None
         else let q = pow2 (e - 52); n = round_half_even (a / q)
              in if e = 1023 \<and> 2 ^ 53 \<le> n then None else Some (of_int n * q))"

definition round64 :: "rat \<Rightarrow> pyfloat" where
  "round64 x =
     (if x = 0 then Finite 0
      else case round_magnitude \<bar>x\<bar> of
             None \<Rightarrow> if 0 < x then PosInf else NegInf
           | Some y \<Rightarrow> Finite (if 0 < x then y else - y))"

definition is_binary64 :: "rat \<Rightarrow> bool" where
  "is_binary64 x = (round64 x = Finite x)"

text \<open>
  A number written in decimal, in the source, in the sheet or in the form, is read as the
  nearest float; the result of an operation is the exact result rounded once.
\<close>

definition to_binary64 :: "pyfloat \<Rightarrow> pyfloat" where
  "to_binary64 a = (case a of Finite x \<Rightarrow> round64 x | _ \<Rightarrow> a)"

definition float_add :: "pyfloat \<Rightarrow> pyfloat \<Rightarrow> pyfloat" where
  "float_add a b = to_binary64 (py_add a b)"

definition float_sub :: "pyfloat \<Rightarrow> pyfloat \<Rightarrow> pyfloat" where
  "float_sub a b = to_binary64 (py_sub a b)"

definition float_mul :: "pyfloat \<Rightarrow> pyfloat \<Rightarrow> pyfloat" where
  "float_mul a b = to_binary64 (py_mul a b)"

text \<open>
  An int that meets a float in a product is converted first; Python raises
  \<^verbatim>\<open>OverflowError\<close> when it is too large for a float.
\<close>

definition float_of_int :: "int \<Rightarrow> error + pyfloat" where
  "float_of_int k =
     (case round64 (of_int k) of Finite x \<Rightarrow> Inr (Finite x) | _ \<Rightarrow> Inl OverflowError)"

text \<open>The first two lines of the calculation, as Python computes them.\<close>

definition lekalink_cost_float :: "rates \<Rightarrow> usage \<Rightarrow> error + pyfloat" where
  "lekalink_cost_float rt u =
     (case float_of_int (vms u) of
        Inl e \<Rightarrow> Inl e
      | Inr n \<Rightarrow>
          Inr (float_add
                 (float_add (float_mul n (to_binary64 (VM_RATE rt)))
                            (float_mul (to_binary64 (storage u))
                                       (to_binary64 (STORAGE_RATE_PER_TB rt))))
                 (float_mul (to_binary64 (bandwidth u))
                            (to_binary64 (BANDWIDTH_RATE_PER_MBPS rt)))))"

definition monthly_savings_float :: "rates \<Rightarrow> usage \<Rightarrow> error + pyfloat" where
  "monthly_savings_float rt u =
     (case lekalink_cost_float rt u of
        Inl e \<Rightarrow> Inl e
      | Inr c \<Rightarrow> Inr (float_sub (to_binary64 (current_cost u)) c))"

section \<open>Substrings and case\<close>

lemma startswith_iff: "startswith s k \<longleftrightarrow> (\<exists>post. s = k @ post)"
  by (induction s k rule: startswith.induct) auto

lemma str_in_iff: "str_in k s \<longleftrightarrow> (\<exists>pre post. s = pre @ k @ post)"
proof (induction s)
  case Nil
  then show ?case by auto
next
  case (Cons c cs)
  show ?case
  proof
    assume "str_in k (c # cs)"
    then consider "startswith (c # cs) k" | "str_in k cs" by auto
    then show "\<exists>pre post. c # cs = pre @ k @ post"
    proof cases
      case 1
      then obtain post where "c # cs = k @ post" using startswith_iff by blast
      then have "c # cs = [] @ k @ post" by simp
      then show ?thesis by blast
    next
      case 2
      then obtain pre post where "cs = pre @ k @ post" using Cons.IH by blast
      then have "c # cs = (c # pre) @ k @ post" by simp
      then show ?thesis by blast
    qed
  next
    assume "\<exists>pre post. c # cs = pre @ k @ post"
    then obtain pre post where eq: "c # cs = pre @ k @ post" by blast
    show "str_in k (c # cs)"
    proof (cases pre)
      case Nil
      with eq have "startswith (c # cs) k" using startswith_iff by auto
      then show ?thesis by simp
    next
      case (Cons p ps)
      with eq have "cs = ps @ k @ post" by simp
      then have "str_in k cs" using Cons.IH by blast
      then show ?thesis by simp
    qed
  qed
qed

lemma upper_char_G: "upper_char c = CHR ''G'' \<longleftrightarrow> c = CHR ''g'' \<or> c = CHR ''G''"
  by (simp add: upper_char_def ascii_uppercase_def ascii_lowercase_def)

lemma upper_char_B: "upper_char c = CHR ''B'' \<longleftrightarrow> c = CHR ''b'' \<or> c = CHR ''B''"
  by (simp add: upper_char_def ascii_uppercase_def ascii_lowercase_def)

lemma contains_GB_iff:
  "str_in ''GB'' (upper d) \<longleftrightarrow>
     (\<exists>pre g b post. d = pre @ g # b # post \<and>
        (g = CHR ''g'' \<or> g = CHR ''G'') \<and> (b = CHR ''b'' \<or> b = CHR ''B''))"
proof
  assume "str_in ''GB'' (upper d)"
  then obtain us vs where "map upper_char d = us @ ''GB'' @ vs"
    unfolding upper_def str_in_iff by blast
  then have "map upper_char d = us @ CHR ''G'' # CHR ''B'' # vs" by simp
  then obtain pre rest where d: "d = pre @ rest" and "map upper_char rest = CHR ''G'' # CHR ''B'' # vs"
    by (auto simp: map_eq_append_conv)
  then obtain g b post where rest: "rest = g # b # post"
    and "upper_char g = CHR ''G''" and "upper_char b = CHR ''B''"
    by (auto simp: map_eq_Cons_conv)
  then have "(g = CHR ''g'' \<or> g = CHR ''G'') \<and> (b = CHR ''b'' \<or> b = CHR ''B'')"
    using upper_char_G upper_char_B by blast
  with d rest show "\<exists>pre g b post. d = pre @ g # b # post \<and>
        (g = CHR ''g'' \<or> g = CHR ''G'') \<and> (b = CHR ''b'' \<or> b = CHR ''B'')"
    by blast
next
  assume "\<exists>pre g b post. d = pre @ g # b # post \<and>
        (g = CHR ''g'' \<or> g = CHR ''G'') \<and> (b = CHR ''b'' \<or> b = CHR ''B'')"
  then obtain pre g b post where d: "d = pre @ g # b # post"
    and "g = CHR ''g'' \<or> g = CHR ''G''" and "b = CHR ''b'' \<or> b = CHR ''B''"
    by blast
  then have "upper_char g = CHR ''G''" and "upper_char b = CHR ''B''"
    using upper_char_G upper_char_B by blast+
  with d have "map upper_char d = map upper_char pre @ ''GB'' @ map upper_char post"
    by simp
  then show "str_in ''GB'' (upper d)"
    unfolding upper_def str_in_iff by blast
qed

lemma str_contains_iff:
  "str_contains keywords cell \<longleftrightarrow>
     (\<exists>s k pre post. cell = Some s \<and> k \<in> set keywords \<and>
        map lower_char s = pre @ map lower_char k @ post)"
  by (cases cell) (auto simp: str_contains_def list_ex_iff str_in_iff)

section \<open>The row that gives a rate\<close>

lemma iloc0_filter_Some:
  "iloc0 (filter P rows) = Some r \<longleftrightarrow>
     (\<exists>pre post. rows = pre @ r # post \<and> P r \<and> (\<forall>p \<in> set pre. \<not> P p))"
proof (induction rows)
  case Nil
  then show ?case by (simp add: iloc0_def)
next
  case (Cons a rows)
  show ?case
  proof (cases "P a")
    case True
    have "(\<exists>pre post. a # rows = pre @ r # post \<and> P r \<and> (\<forall>p \<in> set pre. \<not> P p)) \<longleftrightarrow> a = r"
    proof
      assume "\<exists>pre post. a # rows = pre @ r # post \<and> P r \<and> (\<forall>p \<in> set pre. \<not> P p)"
      then obtain pre post where eq: "a # rows = pre @ r # post" and no: "\<forall>p \<in> set pre. \<not> P p"
        by blast
      show "a = r"
      proof (cases pre)
        case Nil
        with eq show ?thesis by simp
      next
        case (Cons x xs)
        with eq have "x = a" by simp
        with Cons no True show ?thesis by simp
      qed
    next
      assume "a = r"
      with True have "a # rows = [] @ r # rows \<and> P r \<and> (\<forall>p \<in> set []. \<not> P p)" by simp
      then show "\<exists>pre post. a # rows = pre @ r # post \<and> P r \<and> (\<forall>p \<in> set pre. \<not> P p)"
        by blast
    qed
    with True show ?thesis by (simp add: iloc0_def)
  next
    case False
    have "(\<exists>pre post. a # rows = pre @ r # post \<and> P r \<and> (\<forall>p \<in> set pre. \<not> P p)) \<longleftrightarrow>
          (\<exists>pre post. rows = pre @ r # post \<and> P r \<and> (\<forall>p \<in> set pre. \<not> P p))"
    proof
      assume "\<exists>pre post. a # rows = pre @ r # post \<and> P r \<and> (\<forall>p \<in> set pre. \<not> P p)"
      then obtain pre post where eq: "a # rows = pre @ r # post" and Pr: "P r"
        and no: "\<forall>p \<in> set pre. \<not> P p"
        by blast
      from eq Pr False obtain xs where pre: "pre = a # xs" by (cases pre) auto
      with eq no have "rows = xs @ r # post \<and> (\<forall>p \<in> set xs. \<not> P p)" by simp
      with Pr show "\<exists>pre post. rows = pre @ r # post \<and> P r \<and> (\<forall>p \<in> set pre. \<not> P p)"
        by blast
    next
      assume "\<exists>pre post. rows = pre @ r # post \<and> P r \<and> (\<forall>p \<in> set pre. \<not> P p)"
      then obtain pre post where "rows = pre @ r # post" and "P r" and "\<forall>p \<in> set pre. \<not> P p"
        by blast
      with False have "a # rows = (a # pre) @ r # post \<and> P r \<and> (\<forall>p \<in> set (a # pre). \<not> P p)"
        by simp
      then show "\<exists>pre post. a # rows = pre @ r # post \<and> P r \<and> (\<forall>p \<in> set pre. \<not> P p)"
        by blast
    qed
    with False Cons.IH show ?thesis by simp
  qed
qed

lemma iloc0_filter_None:
  "iloc0 (filter P rows) = None \<longleftrightarrow> (\<forall>p \<in> set rows. \<not> P p)"
proof -
  have "iloc0 (filter P rows) = None \<longleftrightarrow> filter P rows = []"
    by (simp add: iloc0_def split: list.splits)
  then show ?thesis by (simp add: filter_empty_conv)
qed

lemma coerce_rate_cases:
  "coerce_rate v d = (case v of Finite x \<Rightarrow> if 0 \<le> x then Finite x else d | _ \<Rightarrow> d)"
  by (cases v) (simp_all add: coerce_rate_def)

lemma coerce_rate_keeps: "0 \<le> x \<Longrightarrow> coerce_rate (Finite x) d = Finite x"
  by (simp add: coerce_rate_def)

lemma defaults_sound:
  "\<exists>x. DEFAULT_VM_RATE = Finite x \<and> 0 \<le> x"
  "\<exists>x. DEFAULT_STORAGE_RATE_PER_TB = Finite x \<and> 0 \<le> x"
  "\<exists>x. DEFAULT_BANDWIDTH_RATE_PER_MBPS = Finite x \<and> 0 \<le> x"
  unfolding DEFAULT_VM_RATE_def DEFAULT_STORAGE_RATE_PER_TB_def
    DEFAULT_BANDWIDTH_RATE_PER_MBPS_def
  by (intro exI conjI, rule refl, simp)+

lemma selected_row_described:
  "iloc0 (masked_rows keywords rows) = Some r \<Longrightarrow>
     \<exists>d. Description r = Some d \<and> str_contains keywords (Some d) \<and> valid r"
proof -
  assume "iloc0 (masked_rows keywords rows) = Some r"
  then have "str_contains keywords (Description r) \<and> valid r"
    unfolding masked_rows_def iloc0_filter_Some by blast
  then show ?thesis by (cases "Description r") (simp_all add: str_contains_def)
qed

lemma vm_block_eq:
  "vm_block rows =
     (case vm_row rows of
        None \<Rightarrow> DEFAULT_VM_RATE
      | Some r \<Rightarrow> (case to_numeric (Unit_Monthly r) of
                     Finite x \<Rightarrow> if 0 \<le> x then Finite x else DEFAULT_VM_RATE
                   | _ \<Rightarrow> DEFAULT_VM_RATE))"
  by (simp add: vm_block_def coerce_rate_cases split: option.splits)

lemma bandwidth_block_eq:
  "bandwidth_block rows =
     (case bandwidth_row rows of
        None \<Rightarrow> DEFAULT_BANDWIDTH_RATE_PER_MBPS
      | Some r \<Rightarrow> (case to_numeric (Unit_Monthly r) of
                     Finite x \<Rightarrow> if 0 \<le> x then Finite x else DEFAULT_BANDWIDTH_RATE_PER_MBPS
                   | _ \<Rightarrow> DEFAULT_BANDWIDTH_RATE_PER_MBPS))"
  by (simp add: bandwidth_block_def coerce_rate_cases split: option.splits)

lemma storage_rate_of_price:
  "0 \<le> x \<Longrightarrow>
   coerce_rate (if gb \<and> py_lt (Finite x) (Finite 50)
                then py_mul (Finite x) (Finite 1024) else Finite x) d
   = (if gb \<and> x < 50 then Finite (x * 1024) else Finite x)"
  by (simp add: coerce_rate_def py_lt_def)

lemma storage_rate_of_default:
  "coerce_rate (if gb \<and> py_lt DEFAULT_STORAGE_RATE_PER_TB (Finite 50)
                then py_mul DEFAULT_STORAGE_RATE_PER_TB (Finite 1024)
                else DEFAULT_STORAGE_RATE_PER_TB) DEFAULT_STORAGE_RATE_PER_TB
   = DEFAULT_STORAGE_RATE_PER_TB"
  by (simp add: coerce_rate_def py_lt_def DEFAULT_STORAGE_RATE_PER_TB_def)

lemma storage_block_eq:
  "storage_block rows =
     (case storage_row rows of
        None \<Rightarrow> DEFAULT_STORAGE_RATE_PER_TB
      | Some r \<Rightarrow>
          (case to_numeric (Unit_Monthly r) of
             Finite x \<Rightarrow>
               if 0 \<le> x
               then (if str_in ''GB'' (upper (case Description r of Some s \<Rightarrow> s | None \<Rightarrow> ''nan''))
                        \<and> x < 50
                     then Finite (x * 1024) else Finite x)
               else DEFAULT_STORAGE_RATE_PER_TB
           | _ \<Rightarrow> DEFAULT_STORAGE_RATE_PER_TB))"
proof (cases "storage_row rows")
  case None
  then show ?thesis by (simp add: storage_block_def)
next
  case (Some r)
  let ?gb = "str_in ''GB'' (upper (case Description r of Some s \<Rightarrow> s | None \<Rightarrow> ''nan''))"
  note fallback = storage_rate_of_default [of ?gb]
  show ?thesis
  proof (cases "to_numeric (Unit_Monthly r)")
    case (Finite x)
    show ?thesis
    proof (cases "0 \<le> x")
      case True
      with Some Finite storage_rate_of_price [of x ?gb] show ?thesis
        by (simp add: storage_block_def coerce_rate_cases Let_def)
    next
      case False
      with Some Finite fallback show ?thesis
        by (simp add: storage_block_def coerce_rate_cases Let_def)
    qed
  next
    case PosInf
    with Some fallback show ?thesis
      by (simp add: storage_block_def coerce_rate_cases Let_def)
  next
    case NegInf
    with Some fallback show ?thesis
      by (simp add: storage_block_def coerce_rate_cases Let_def)
  next
    case NaN
    with Some fallback show ?thesis
      by (simp add: storage_block_def coerce_rate_cases Let_def)
  qed
qed

lemma vm_block_sound: "\<exists>x. vm_block rows = Finite x \<and> 0 \<le> x"
  using defaults_sound(1) by (auto simp: vm_block_eq split: option.splits pyfloat.splits)

lemma storage_block_sound: "\<exists>x. storage_block rows = Finite x \<and> 0 \<le> x"
  using defaults_sound(2) by (auto simp: storage_block_eq split: option.splits pyfloat.splits)

lemma bandwidth_block_sound: "\<exists>x. bandwidth_block rows = Finite x \<and> 0 \<le> x"
  using defaults_sound(3) by (auto simp: bandwidth_block_eq split: option.splits pyfloat.splits)

lemma VM_RATE_load_rates: "VM_RATE (load_rates rows) = vm_block rows"
  using vm_block_sound [of rows] by (auto simp: load_rates_def coerce_rate_keeps)

lemma STORAGE_RATE_load_rates: "STORAGE_RATE_PER_TB (load_rates rows) = storage_block rows"
  using storage_block_sound [of rows] by (auto simp: load_rates_def coerce_rate_keeps)

lemma BANDWIDTH_RATE_load_rates: "BANDWIDTH_RATE_PER_MBPS (load_rates rows) = bandwidth_block rows"
  using bandwidth_block_sound [of rows] by (auto simp: load_rates_def coerce_rate_keeps)

section \<open>The rates loaded from a sheet\<close>

text \<open>
  Claim C2. Loading is a total function of the rows, and on every sheet, whatever its
  descriptions and cells, each of the three rates is a finite number that is not negative.
  The same holds of the value each block assigns before the final coercion.
\<close>

theorem load_rates_finite_nonnegative:
  "(\<exists>v s b. load_rates rows =
       \<lparr> VM_RATE = Finite v, STORAGE_RATE_PER_TB = Finite s,
         BANDWIDTH_RATE_PER_MBPS = Finite b \<rparr> \<and> 0 \<le> v \<and> 0 \<le> s \<and> 0 \<le> b) \<and>
   (\<exists>v. vm_block rows = Finite v \<and> 0 \<le> v) \<and>
   (\<exists>s. storage_block rows = Finite s \<and> 0 \<le> s) \<and>
   (\<exists>b. bandwidth_block rows = Finite b \<and> 0 \<le> b)"
proof -
  obtain v where v: "vm_block rows = Finite v" "0 \<le> v"
    using vm_block_sound by blast
  obtain s where s: "storage_block rows = Finite s" "0 \<le> s"
    using storage_block_sound by blast
  obtain b where b: "bandwidth_block rows = Finite b" "0 \<le> b"
    using bandwidth_block_sound by blast
  from v s b have "load_rates rows =
       \<lparr> VM_RATE = Finite v, STORAGE_RATE_PER_TB = Finite s,
         BANDWIDTH_RATE_PER_MBPS = Finite b \<rparr>"
    by (simp add: load_rates_def coerce_rate_keeps)
  with v s b show ?thesis by blast
qed

theorem load_rates_finite_nonnegative_witness:
  "load_rates
     [\<lparr> Description = None, Unit_Monthly = Number (Finite 5) \<rparr>,
      \<lparr> Description = Some ''VM'', Unit_Monthly = Number NegInf \<rparr>,
      \<lparr> Description = Some ''SSD (GB)'', Unit_Monthly = Number (Finite (- 3)) \<rparr>,
      \<lparr> Description = Some ''Mbps'', Unit_Monthly = Number PosInf \<rparr>,
      \<lparr> Description = Some ''Network'', Unit_Monthly = Text \<rparr>,
      \<lparr> Description = Some [], Unit_Monthly = Empty \<rparr>] = default_rates \<and>
   (\<exists>v s b. default_rates =
       \<lparr> VM_RATE = Finite v, STORAGE_RATE_PER_TB = Finite s,
         BANDWIDTH_RATE_PER_MBPS = Finite b \<rparr> \<and> 0 \<le> v \<and> 0 \<le> s \<and> 0 \<le> b)"
proof -
  let ?rows = "[\<lparr> Description = None, Unit_Monthly = Number (Finite 5) \<rparr>,
      \<lparr> Description = Some ''VM'', Unit_Monthly = Number NegInf \<rparr>,
      \<lparr> Description = Some ''SSD (GB)'', Unit_Monthly = Number (Finite (- 3)) \<rparr>,
      \<lparr> Description = Some ''Mbps'', Unit_Monthly = Number PosInf \<rparr>,
      \<lparr> Description = Some ''Network'', Unit_Monthly = Text \<rparr>,
      \<lparr> Description = Some [], Unit_Monthly = Empty \<rparr>]"
  have loaded: "load_rates ?rows = default_rates" by code_simp
  with load_rates_finite_nonnegative [of ?rows] show ?thesis by simp
qed

text \<open>
  Claim C6. Let the storage block select a row. Its description is a string and its coerced
  price is a finite number \<open>x \<ge> 0\<close>. If the description holds \<open>GB\<close>, in any case, as a
  substring and \<open>x < 50\<close>, the storage rate is \<open>x * 1024\<close>, a value the second coercion
  keeps; otherwise the rate is \<open>x\<close>. A row \<^verbatim>\<open>vStorage (per GB)\<close> at 2.5 gives 2560, and a
  row whose description holds \<open>GB\<close> at 900 gives 900.
\<close>

theorem storage_rate_gb_conversion:
  "(storage_row rows = Some r \<longrightarrow>
      (\<exists>d x. Description r = Some d \<and>
         coerce_rate (to_numeric (Unit_Monthly r)) DEFAULT_STORAGE_RATE_PER_TB = Finite x \<and>
         0 \<le> x \<and>
         (str_in ''GB'' (upper d) \<longleftrightarrow>
            (\<exists>pre g b post. d = pre @ g # b # post \<and>
               (g = CHR ''g'' \<or> g = CHR ''G'') \<and> (b = CHR ''b'' \<or> b = CHR ''B''))) \<and>
         coerce_rate (py_mul (Finite x) (Finite 1024)) DEFAULT_STORAGE_RATE_PER_TB
           = Finite (x * 1024) \<and>
         STORAGE_RATE_PER_TB (load_rates rows) =
           (if str_in ''GB'' (upper d) \<and> x < 50 then Finite (x * 1024) else Finite x))) \<and>
   STORAGE_RATE_PER_TB (load_rates
     [\<lparr> Description = Some ''vStorage (per GB)'', Unit_Monthly = Number (Finite 2.5) \<rparr>])
     = Finite 2560.0 \<and>
   STORAGE_RATE_PER_TB (load_rates
     [\<lparr> Description = Some ''Storage (per GB)'', Unit_Monthly = Number (Finite 900) \<rparr>])
     = Finite 900"
proof (intro conjI impI)
  assume sel: "storage_row rows = Some r"
  then obtain d where d: "Description r = Some d"
    using selected_row_described unfolding storage_row_def by blast
  obtain dflt where dflt: "DEFAULT_STORAGE_RATE_PER_TB = Finite dflt" "0 \<le> dflt"
    using defaults_sound(2) by blast
  define x where "x = (case to_numeric (Unit_Monthly r) of
      Finite y \<Rightarrow> if 0 \<le> y then y else dflt | _ \<Rightarrow> dflt)"
  have price: "coerce_rate (to_numeric (Unit_Monthly r)) DEFAULT_STORAGE_RATE_PER_TB = Finite x"
    by (simp add: x_def coerce_rate_cases dflt split: pyfloat.splits)
  have nonneg: "0 \<le> x"
    using dflt(2) by (simp add: x_def split: pyfloat.splits)
  have kept: "coerce_rate (py_mul (Finite x) (Finite 1024)) DEFAULT_STORAGE_RATE_PER_TB
           = Finite (x * 1024)"
    using nonneg by (simp add: coerce_rate_keeps)
  have "storage_block rows =
      coerce_rate (if str_in ''GB'' (upper d) \<and> py_lt (Finite x) (Finite 50)
                   then py_mul (Finite x) (Finite 1024) else Finite x)
        DEFAULT_STORAGE_RATE_PER_TB"
    using sel d price by (simp add: storage_block_def Let_def)
  then have rate: "STORAGE_RATE_PER_TB (load_rates rows) =
           (if str_in ''GB'' (upper d) \<and> x < 50 then Finite (x * 1024) else Finite x)"
    using nonneg by (simp add: STORAGE_RATE_load_rates storage_rate_of_price)
  from d price nonneg kept rate contains_GB_iff [of d]
  show "\<exists>d x. Description r = Some d \<and>
         coerce_rate (to_numeric (Unit_Monthly r)) DEFAULT_STORAGE_RATE_PER_TB = Finite x \<and>
         0 \<le> x \<and>
         (str_in ''GB'' (upper d) \<longleftrightarrow>
            (\<exists>pre g b post. d = pre @ g # b # post \<and>
               (g = CHR ''g'' \<or> g = CHR ''G'') \<and> (b = CHR ''b'' \<or> b = CHR ''B''))) \<and>
         coerce_rate (py_mul (Finite x) (Finite 1024)) DEFAULT_STORAGE_RATE_PER_TB
           = Finite (x * 1024) \<and>
         STORAGE_RATE_PER_TB (load_rates rows) =
           (if str_in ''GB'' (upper d) \<and> x < 50 then Finite (x * 1024) else Finite x)"
    by blast
next
  show "STORAGE_RATE_PER_TB (load_rates
     [\<lparr> Description = Some ''vStorage (per GB)'', Unit_Monthly = Number (Finite 2.5) \<rparr>])
     = Finite 2560.0"
    by code_simp
next
  show "STORAGE_RATE_PER_TB (load_rates
     [\<lparr> Description = Some ''Storage (per GB)'', Unit_Monthly = Number (Finite 900) \<rparr>])
     = Finite 900"
    by code_simp
qed

theorem storage_rate_gb_conversion_witness:
  "storage_row
     [\<lparr> Description = Some ''Bandwidth'', Unit_Monthly = Number (Finite 9) \<rparr>,
      \<lparr> Description = Some ''SSD per gb'', Unit_Monthly = Number (Finite 3) \<rparr>]
     = Some \<lparr> Description = Some ''SSD per gb'', Unit_Monthly = Number (Finite 3) \<rparr> \<and>
   STORAGE_RATE_PER_TB (load_rates
     [\<lparr> Description = Some ''Bandwidth'', Unit_Monthly = Number (Finite 9) \<rparr>,
      \<lparr> Description = Some ''SSD per gb'', Unit_Monthly = Number (Finite 3) \<rparr>])
     = Finite 3072"
proof -
  let ?r = "\<lparr> Description = Some ''SSD per gb'', Unit_Monthly = Number (Finite 3) \<rparr>"
  let ?rows = "[\<lparr> Description = Some ''Bandwidth'', Unit_Monthly = Number (Finite 9) \<rparr>, ?r]"
  have sel: "storage_row ?rows = Some ?r" by code_simp
  have gb: "str_in ''GB'' (upper ''SSD per gb'')" by code_simp
  have price: "coerce_rate (to_numeric (Unit_Monthly ?r)) DEFAULT_STORAGE_RATE_PER_TB = Finite 3"
    by (simp add: coerce_rate_def)
  from sel storage_rate_gb_conversion [of ?rows ?r]
  obtain d x where "Description ?r = Some d"
    and "coerce_rate (to_numeric (Unit_Monthly ?r)) DEFAULT_STORAGE_RATE_PER_TB = Finite x"
    and "STORAGE_RATE_PER_TB (load_rates ?rows) =
           (if str_in ''GB'' (upper d) \<and> x < 50 then Finite (x * 1024) else Finite x)"
    by blast
  with gb price have "STORAGE_RATE_PER_TB (load_rates ?rows) = Finite 3072" by simp
  with sel show ?thesis by blast
qed

text \<open>
  Claim C7. For each category the row that gives the rate is the first row of the sheet, in
  the sheet's order, whose \<^verbatim>\<open>Unit Monthly\<close> is a number and whose description holds one of
  the category's keywords as a substring, letters compared without case: it is selected
  exactly when no row before it qualifies, whatever rows follow it. When no row qualifies,
  none is selected.
\<close>

theorem first_matching_row_is_selected:
  "(vm_row rows = Some r \<longleftrightarrow>
      (\<exists>pre post. rows = pre @ r # post \<and>
         (str_contains vm_keywords (Description r) \<and> valid r) \<and>
         (\<forall>p \<in> set pre. \<not> (str_contains vm_keywords (Description p) \<and> valid p)))) \<and>
   (storage_row rows = Some r \<longleftrightarrow>
      (\<exists>pre post. rows = pre @ r # post \<and>
         (str_contains storage_keywords (Description r) \<and> valid r) \<and>
         (\<forall>p \<in> set pre. \<not> (str_contains storage_keywords (Description p) \<and> valid p)))) \<and>
   (bandwidth_row rows = Some r \<longleftrightarrow>
      (\<exists>pre post. rows = pre @ r # post \<and>
         (str_contains bandwidth_keywords (Description r) \<and> valid r) \<and>
         (\<forall>p \<in> set pre. \<not> (str_contains bandwidth_keywords (Description p) \<and> valid p)))) \<and>
   (vm_row rows = None \<longleftrightarrow>
      (\<forall>p \<in> set rows. \<not> (str_contains vm_keywords (Description p) \<and> valid p))) \<and>
   (storage_row rows = None \<longleftrightarrow>
      (\<forall>p \<in> set rows. \<not> (str_contains storage_keywords (Description p) \<and> valid p))) \<and>
   (bandwidth_row rows = None \<longleftrightarrow>
      (\<forall>p \<in> set rows. \<not> (str_contains bandwidth_keywords (Description p) \<and> valid p))) \<and>
   (valid r \<longleftrightarrow> (\<exists>v. Unit_Monthly r = Number v \<and> v \<noteq> NaN)) \<and>
   (\<forall>keywords. str_contains keywords (Description r) \<longleftrightarrow>
      (\<exists>s k pre post. Description r = Some s \<and> k \<in> set keywords \<and>
         map lower_char s = pre @ map lower_char k @ post)) \<and>
   VM_RATE (load_rates rows) =
     (case vm_row rows of
        Some r' \<Rightarrow> coerce_rate (to_numeric (Unit_Monthly r')) DEFAULT_VM_RATE
      | None \<Rightarrow> DEFAULT_VM_RATE) \<and>
   BANDWIDTH_RATE_PER_MBPS (load_rates rows) =
     (case bandwidth_row rows of
        Some r' \<Rightarrow> coerce_rate (to_numeric (Unit_Monthly r')) DEFAULT_BANDWIDTH_RATE_PER_MBPS
      | None \<Rightarrow> DEFAULT_BANDWIDTH_RATE_PER_MBPS)"
proof -
  have numeric: "valid r \<longleftrightarrow> (\<exists>v. Unit_Monthly r = Number v \<and> v \<noteq> NaN)"
  proof (cases "Unit_Monthly r")
    case (Number v)
    then show ?thesis by (cases v) (simp_all add: valid_def)
  qed (simp_all add: valid_def)
  have words: "\<forall>keywords. str_contains keywords (Description r) \<longleftrightarrow>
      (\<exists>s k pre post. Description r = Some s \<and> k \<in> set keywords \<and>
         map lower_char s = pre @ map lower_char k @ post)"
    using str_contains_iff by blast
  have vm: "VM_RATE (load_rates rows) =
     (case vm_row rows of
        Some r' \<Rightarrow> coerce_rate (to_numeric (Unit_Monthly r')) DEFAULT_VM_RATE
      | None \<Rightarrow> DEFAULT_VM_RATE)"
    by (simp add: VM_RATE_load_rates vm_block_def)
  have bw: "BANDWIDTH_RATE_PER_MBPS (load_rates rows) =
     (case bandwidth_row rows of
        Some r' \<Rightarrow> coerce_rate (to_numeric (Unit_Monthly r')) DEFAULT_BANDWIDTH_RATE_PER_MBPS
      | None \<Rightarrow> DEFAULT_BANDWIDTH_RATE_PER_MBPS)"
    by (simp add: BANDWIDTH_RATE_load_rates bandwidth_block_def)
  show ?thesis
    unfolding vm_row_def storage_row_def bandwidth_row_def masked_rows_def
      iloc0_filter_Some iloc0_filter_None
    using numeric words
      vm [unfolded vm_row_def masked_rows_def]
      bw [unfolded bandwidth_row_def masked_rows_def]
    by (intro conjI) (rule refl | assumption)+
qed

theorem first_matching_row_is_selected_witness:
  "vm_row
     [\<lparr> Description = Some ''VM backup'', Unit_Monthly = Text \<rparr>,
      \<lparr> Description = Some ''Network'', Unit_Monthly = Number (Finite 9) \<rparr>,
      \<lparr> Description = Some ''small vm'', Unit_Monthly = Number (Finite 100) \<rparr>,
      \<lparr> Description = Some ''Virtual Data Centre'', Unit_Monthly = Number (Finite 200) \<rparr>]
     = Some \<lparr> Description = Some ''small vm'', Unit_Monthly = Number (Finite 100) \<rparr> \<and>
   (\<exists>pre post.
      [\<lparr> Description = Some ''VM backup'', Unit_Monthly = Text \<rparr>,
       \<lparr> Description = Some ''Network'', Unit_Monthly = Number (Finite 9) \<rparr>,
       \<lparr> Description = Some ''small vm'', Unit_Monthly = Number (Finite 100) \<rparr>,
       \<lparr> Description = Some ''Virtual Data Centre'', Unit_Monthly = Number (Finite 200) \<rparr>]
        = pre @ \<lparr> Description = Some ''small vm'', Unit_Monthly = Number (Finite 100) \<rparr> # post \<and>
      (\<forall>p \<in> set pre. \<not> (str_contains vm_keywords (Description p) \<and> valid p))) \<and>
   VM_RATE (load_rates
     [\<lparr> Description = Some ''VM backup'', Unit_Monthly = Text \<rparr>,
      \<lparr> Description = Some ''Network'', Unit_Monthly = Number (Finite 9) \<rparr>,
      \<lparr> Description = Some ''small vm'', Unit_Monthly = Number (Finite 100) \<rparr>,
      \<lparr> Description = Some ''Virtual Data Centre'', Unit_Monthly = Number (Finite 200) \<rparr>])
     = Finite 100"
proof -
  let ?r = "\<lparr> Description = Some ''small vm'', Unit_Monthly = Number (Finite 100) \<rparr>"
  let ?rows = "[\<lparr> Description = Some ''VM backup'', Unit_Monthly = Text \<rparr>,
      \<lparr> Description = Some ''Network'', Unit_Monthly = Number (Finite 9) \<rparr>,
      ?r,
      \<lparr> Description = Some ''Virtual Data Centre'', Unit_Monthly = Number (Finite 200) \<rparr>]"
  have sel: "vm_row ?rows = Some ?r" by code_simp
  note inst = first_matching_row_is_selected [of ?rows ?r]
  from sel inst have first: "\<exists>pre post. ?rows = pre @ ?r # post \<and>
      (\<forall>p \<in> set pre. \<not> (str_contains vm_keywords (Description p) \<and> valid p))"
    by blast
  from inst have "VM_RATE (load_rates ?rows) =
     (case vm_row ?rows of
        Some r' \<Rightarrow> coerce_rate (to_numeric (Unit_Monthly r')) DEFAULT_VM_RATE
      | None \<Rightarrow> DEFAULT_VM_RATE)"
    by blast
  with sel have "VM_RATE (load_rates ?rows) = Finite 100"
    by (simp add: coerce_rate_def)
  with sel first show ?thesis by blast
qed

text \<open>
  Claim C8. Each rate depends on the row selected for its own category, and on nothing
  else. With no selected row, or a selected row whose value is not a finite number at or
  above zero, the rate is the default of that category: 864.35 for a virtual machine,
  870.40 for a terabyte, 7.50 for a Mbps. Otherwise the rate comes from the row. A sheet
  with rows for virtual machines and storage and none for bandwidth yields those rows'
  rates and 7.50.
\<close>

theorem fallback_is_per_category:
  "VM_RATE (load_rates rows) =
     (case vm_row rows of
        None \<Rightarrow> DEFAULT_VM_RATE
      | Some r \<Rightarrow> (case to_numeric (Unit_Monthly r) of
                     Finite x \<Rightarrow> if 0 \<le> x then Finite x else DEFAULT_VM_RATE
                   | _ \<Rightarrow> DEFAULT_VM_RATE)) \<and>
   STORAGE_RATE_PER_TB (load_rates rows) =
     (case storage_row rows of
        None \<Rightarrow> DEFAULT_STORAGE_RATE_PER_TB
      | Some r \<Rightarrow>
          (case to_numeric (Unit_Monthly r) of
             Finite x \<Rightarrow>
               if 0 \<le> x
               then (if str_in ''GB'' (upper (case Description r of Some s \<Rightarrow> s | None \<Rightarrow> ''nan''))
                        \<and> x < 50
                     then Finite (x * 1024) else Finite x)
               else DEFAULT_STORAGE_RATE_PER_TB
           | _ \<Rightarrow> DEFAULT_STORAGE_RATE_PER_TB)) \<and>
   BANDWIDTH_RATE_PER_MBPS (load_rates rows) =
     (case bandwidth_row rows of
        None \<Rightarrow> DEFAULT_BANDWIDTH_RATE_PER_MBPS
      | Some r \<Rightarrow> (case to_numeric (Unit_Monthly r) of
                     Finite x \<Rightarrow> if 0 \<le> x then Finite x else DEFAULT_BANDWIDTH_RATE_PER_MBPS
                   | _ \<Rightarrow> DEFAULT_BANDWIDTH_RATE_PER_MBPS)) \<and>
   (vm_row rows = vm_row rows' \<longrightarrow> VM_RATE (load_rates rows) = VM_RATE (load_rates rows')) \<and>
   (storage_row rows = storage_row rows' \<longrightarrow>
      STORAGE_RATE_PER_TB (load_rates rows) = STORAGE_RATE_PER_TB (load_rates rows')) \<and>
   (bandwidth_row rows = bandwidth_row rows' \<longrightarrow>
      BANDWIDTH_RATE_PER_MBPS (load_rates rows) = BANDWIDTH_RATE_PER_MBPS (load_rates rows')) \<and>
   DEFAULT_VM_RATE = Finite 864.35 \<and>
   DEFAULT_STORAGE_RATE_PER_TB = Finite 870.40 \<and>
   DEFAULT_BANDWIDTH_RATE_PER_MBPS = Finite 7.50 \<and>
   load_rates
     [\<lparr> Description = Some ''Virtual Data Centre'', Unit_Monthly = Number (Finite 500) \<rparr>,
      \<lparr> Description = Some ''NVME Storage (TB)'', Unit_Monthly = Number (Finite 900) \<rparr>,
      \<lparr> Description = Some ''Support'', Unit_Monthly = Number (Finite 40) \<rparr>]
     = \<lparr> VM_RATE = Finite 500, STORAGE_RATE_PER_TB = Finite 900,
         BANDWIDTH_RATE_PER_MBPS = Finite 7.50 \<rparr>"
proof (intro conjI impI)
  show "load_rates
     [\<lparr> Description = Some ''Virtual Data Centre'', Unit_Monthly = Number (Finite 500) \<rparr>,
      \<lparr> Description = Some ''NVME Storage (TB)'', Unit_Monthly = Number (Finite 900) \<rparr>,
      \<lparr> Description = Some ''Support'', Unit_Monthly = Number (Finite 40) \<rparr>]
     = \<lparr> VM_RATE = Finite 500, STORAGE_RATE_PER_TB = Finite 900,
         BANDWIDTH_RATE_PER_MBPS = Finite 7.50 \<rparr>"
    by code_simp
qed (simp_all add: VM_RATE_load_rates STORAGE_RATE_load_rates BANDWIDTH_RATE_load_rates
      vm_block_eq storage_block_eq bandwidth_block_eq DEFAULT_VM_RATE_def
      DEFAULT_STORAGE_RATE_PER_TB_def DEFAULT_BANDWIDTH_RATE_PER_MBPS_def)

theorem fallback_is_per_category_witness:
  "bandwidth_row
     [\<lparr> Description = Some ''VDC'', Unit_Monthly = Number (Finite 500) \<rparr>,
      \<lparr> Description = Some ''SSD'', Unit_Monthly = Number (Finite (- 1)) \<rparr>] = None \<and>
   bandwidth_row
     [\<lparr> Description = Some ''VDC'', Unit_Monthly = Number (Finite 500) \<rparr>,
      \<lparr> Description = Some ''SSD'', Unit_Monthly = Number (Finite (- 1)) \<rparr>] = bandwidth_row [] \<and>
   BANDWIDTH_RATE_PER_MBPS (load_rates
     [\<lparr> Description = Some ''VDC'', Unit_Monthly = Number (Finite 500) \<rparr>,
      \<lparr> Description = Some ''SSD'', Unit_Monthly = Number (Finite (- 1)) \<rparr>])
     = BANDWIDTH_RATE_PER_MBPS (load_rates []) \<and>
   BANDWIDTH_RATE_PER_MBPS (load_rates
     [\<lparr> Description = Some ''VDC'', Unit_Monthly = Number (Finite 500) \<rparr>,
      \<lparr> Description = Some ''SSD'', Unit_Monthly = Number (Finite (- 1)) \<rparr>])
     = DEFAULT_BANDWIDTH_RATE_PER_MBPS"
proof -
  let ?rows = "[\<lparr> Description = Some ''VDC'', Unit_Monthly = Number (Finite 500) \<rparr>,
      \<lparr> Description = Some ''SSD'', Unit_Monthly = Number (Finite (- 1)) \<rparr>]"
  have none: "bandwidth_row ?rows = None" by code_simp
  have empty: "bandwidth_row [] = None" by code_simp
  note inst = fallback_is_per_category [of ?rows "[]"]
  from none empty have rows_agree: "bandwidth_row ?rows = bandwidth_row []" by simp
  from inst have "bandwidth_row ?rows = bandwidth_row [] \<longrightarrow>
      BANDWIDTH_RATE_PER_MBPS (load_rates ?rows) = BANDWIDTH_RATE_PER_MBPS (load_rates [])"
    by blast
  with rows_agree have same: "BANDWIDTH_RATE_PER_MBPS (load_rates ?rows)
     = BANDWIDTH_RATE_PER_MBPS (load_rates [])"
    by blast
  from inst have "BANDWIDTH_RATE_PER_MBPS (load_rates ?rows) =
     (case bandwidth_row ?rows of
        None \<Rightarrow> DEFAULT_BANDWIDTH_RATE_PER_MBPS
      | Some r \<Rightarrow> (case to_numeric (Unit_Monthly r) of
                     Finite x \<Rightarrow> if 0 \<le> x then Finite x else DEFAULT_BANDWIDTH_RATE_PER_MBPS
                   | _ \<Rightarrow> DEFAULT_BANDWIDTH_RATE_PER_MBPS))"
    by blast
  with none have "BANDWIDTH_RATE_PER_MBPS (load_rates ?rows) = DEFAULT_BANDWIDTH_RATE_PER_MBPS"
    by simp
  with none rows_agree same show ?thesis by blast
qed

section \<open>The quote\<close>

lemma py_truediv_positive:
  "py_gt b (Finite 0) \<Longrightarrow> \<exists>q. py_truediv a b = Inr q"
  by (cases b; cases a) simp_all

lemma percentage_savings_of_returns: "\<exists>p. percentage_savings_of rt u = Inr p"
proof (cases "py_gt (current_cost u) (Finite 0)")
  case True
  then obtain q where "py_truediv (monthly_savings_of rt u) (current_cost u) = Inr q"
    using py_truediv_positive by blast
  with True show ?thesis by (simp add: percentage_savings_of_def)
next
  case False
  then show ?thesis by (simp add: percentage_savings_of_def)
qed

lemma calculation_returns:
  "\<exists>p. percentage_savings_of rt u = Inr p \<and>
       calculation rt u = Inr \<lparr> lekalink_cost = lekalink_cost_of rt u,
                                monthly_savings = monthly_savings_of rt u,
                                percentage_savings = p \<rparr>"
proof -
  obtain p where "percentage_savings_of rt u = Inr p"
    using percentage_savings_of_returns by blast
  then show ?thesis by (simp add: calculation_def)
qed





text \<open>
  Claim C3. The calculation returns a quote on every input: the division is reached only
  under \<^verbatim>\<open>current_cost > 0\<close>, so \<^verbatim>\<open>ZeroDivisionError\<close> is never raised. When the current
  monthly cost is zero the percentage is zero, whatever the rates and the other quantities.
\<close>

theorem zero_current_cost_gives_zero_percentage:
  "(\<exists>q. calculation rt u = Inr q) \<and>
   (current_cost u = Finite 0 \<longrightarrow>
      (\<exists>q. calculation rt u = Inr q \<and> percentage_savings q = Finite 0))"
proof
  show "\<exists>q. calculation rt u = Inr q"
    using calculation_returns [of rt u] by blast
next
  show "current_cost u = Finite 0 \<longrightarrow>
      (\<exists>q. calculation rt u = Inr q \<and> percentage_savings q = Finite 0)"
    by (simp add: calculation_def percentage_savings_of_def)
qed

theorem zero_current_cost_gives_zero_percentage_witness:
  "current_cost \<lparr> vms = 10, storage = Finite 2, bandwidth = Finite 100,
                  current_cost = Finite 0 \<rparr> = Finite 0 \<and>
   (\<exists>q. calculation default_rates
           \<lparr> vms = 10, storage = Finite 2, bandwidth = Finite 100, current_cost = Finite 0 \<rparr>
         = Inr q \<and> percentage_savings q = Finite 0)"
  using zero_current_cost_gives_zero_percentage
    [of default_rates
        "\<lparr> vms = 10, storage = Finite 2, bandwidth = Finite 100, current_cost = Finite 0 \<rparr>"]
  by simp




section \<open>The quote in binary64\<close>

lemma pow2_positive: "0 < pow2 k"
  by (simp add: pow2_def)

lemma round_half_even_nonneg: "0 \<le> r \<Longrightarrow> 0 \<le> round_half_even r"
  by (simp add: round_half_even_def Let_def)

lemma round_magnitude_nonneg: "0 \<le> a \<Longrightarrow> round_magnitude a = Some y \<Longrightarrow> 0 \<le> y"
proof -
  assume a: "0 \<le> a" and y: "round_magnitude a = Some y"
  define q where "q = pow2 (max (floor_log2 a) (- 1022) - 52)"
  have "0 < q" by (simp add: q_def pow2_positive)
  with a have "0 \<le> a / q" by simp
  then have "0 \<le> round_half_even (a / q)" by (rule round_half_even_nonneg)
  with \<open>0 < q\<close> have "0 \<le> of_int (round_half_even (a / q)) * q" by simp
  moreover from y have "y = of_int (round_half_even (a / q)) * q"
    by (simp add: round_magnitude_def Let_def q_def split: if_splits)
  ultimately show ?thesis by simp
qed

lemma round64_nonneg:
  "0 \<le> x \<Longrightarrow> round64 x = PosInf \<or> (\<exists>y. round64 x = Finite y \<and> 0 \<le> y)"
proof (cases "x = 0")
  case True
  then show ?thesis by (simp add: round64_def)
next
  case False
  assume "0 \<le> x"
  with False have pos: "0 < x" by simp
  show ?thesis
  proof (cases "round_magnitude \<bar>x\<bar>")
    case None
    with pos show ?thesis by (simp add: round64_def)
  next
    case (Some y)
    with pos have "0 \<le> y" using round_magnitude_nonneg [of "\<bar>x\<bar>" y] by simp
    with Some pos show ?thesis by (simp add: round64_def)
  qed
qed

lemma round64_minus: "round64 (- x) = py_neg (round64 x)"
proof (cases "x = 0")
  case True
  then show ?thesis by (simp add: round64_def)
next
  case False
  then show ?thesis
    by (cases "round_magnitude \<bar>x\<bar>"; cases "0 < x") (auto simp: round64_def)
qed

lemma float_mul_Finite: "float_mul (Finite x) (Finite y) = round64 (x * y)"
  by (simp add: float_mul_def to_binary64_def)

lemma float_add_Finite: "float_add (Finite x) (Finite y) = round64 (x + y)"
  by (simp add: float_add_def to_binary64_def)

lemma float_sub_Finite: "float_sub (Finite x) (Finite y) = round64 (x - y)"
  by (simp add: float_sub_def py_sub_def to_binary64_def)

lemma float_add_nonneg:
  assumes "a = PosInf \<or> (\<exists>x. a = Finite x \<and> 0 \<le> x)"
    and "b = PosInf \<or> (\<exists>y. b = Finite y \<and> 0 \<le> y)"
  shows "float_add a b = PosInf \<or> (\<exists>z. float_add a b = Finite z \<and> 0 \<le> z)"
proof -
  consider "a = PosInf" | "b = PosInf" | x y where "a = Finite x" "0 \<le> x" "b = Finite y" "0 \<le> y"
    using assms by blast
  then show ?thesis
  proof cases
    case 1
    with assms(2) show ?thesis by (auto simp: float_add_def to_binary64_def)
  next
    case 2
    with assms(1) show ?thesis by (auto simp: float_add_def to_binary64_def)
  next
    case 3
    then have "0 \<le> x + y" by simp
    from round64_nonneg [OF this] 3 show ?thesis by (simp add: float_add_Finite)
  qed
qed

lemma round64_Finite_nonneg: "0 \<le> x \<Longrightarrow> round64 x = Finite y \<Longrightarrow> 0 \<le> y"
  using round64_nonneg [of x] by auto

lemma float_of_int_Finite: "round64 (of_int k) = Finite x \<Longrightarrow> float_of_int k = Inr (Finite x)"
  by (simp add: float_of_int_def)

lemma lekalink_cost_float_on_floats:
  assumes "round64 (of_int v) = Finite fv" and "round64 s = Finite fs" and "round64 b = Finite fb"
    and "round64 rv = Finite frv" and "round64 rs = Finite frs" and "round64 rb = Finite frb"
  shows "lekalink_cost_float
           \<lparr> VM_RATE = Finite rv, STORAGE_RATE_PER_TB = Finite rs,
             BANDWIDTH_RATE_PER_MBPS = Finite rb \<rparr>
           \<lparr> vms = v, storage = Finite s, bandwidth = Finite b, current_cost = c \<rparr>
         = Inr (float_add (float_add (round64 (fv * frv)) (round64 (fs * frs)))
                          (round64 (fb * frb)))"
  using assms
  by (simp add: lekalink_cost_float_def float_of_int_Finite to_binary64_def float_mul_Finite)

lemma pow2_powi: "pow2 k = 2 powi k"
  by (simp add: pow2_def power_int_def field_simps)

lemma round_half_even_near: "\<bar>of_int (round_half_even r) - r\<bar> \<le> 1 / 2"
proof -
  define f where "f = \<lfloor>r\<rfloor>"
  have "of_int f \<le> r" and "r < of_int f + 1"
    unfolding f_def by linarith+
  then show ?thesis
    unfolding round_half_even_def Let_def f_def [symmetric]
    by (auto simp: abs_le_iff)
qed

lemma floor_log2_bounds:
  assumes "0 < a"
  shows "pow2 (floor_log2 a) \<le> a" and "a < pow2 (floor_log2 a + 1)"
proof -
  obtain p q where pq: "quotient_of a = (p, q)" by (cases "quotient_of a")
  then have q: "0 < q" by (rule quotient_of_denom_pos)
  from pq have a: "a = of_int p / of_int q" by (rule quotient_of_div)
  with assms q have p: "0 < p" by (simp add: zero_less_divide_iff)
  define bp bq where "bp = bitlen p" and "bq = bitlen q"
  from bitlen_bounds [OF p] have "2 ^ nat (bp - 1) \<le> p" and "p < 2 ^ nat bp"
    by (simp_all add: bp_def)
  moreover from p have "1 \<le> bp" unfolding bp_def
    using bitlen_eq_zero_iff [of p] bitlen_nonneg [of p] by linarith
  ultimately have plo: "(2::rat) powi (bp - 1) \<le> of_int p" and phi: "of_int p < (2::rat) powi bp"
    by (simp_all add: power_int_def of_int_power_le_of_int_cancel_iff
        of_int_less_of_int_power_cancel_iff flip: of_int_power)
  from bitlen_bounds [OF q] have "2 ^ nat (bq - 1) \<le> q" and "q < 2 ^ nat bq"
    by (simp_all add: bq_def)
  moreover from q have "1 \<le> bq" unfolding bq_def
    using bitlen_eq_zero_iff [of q] bitlen_nonneg [of q] by linarith
  ultimately have qlo: "(2::rat) powi (bq - 1) \<le> of_int q" and qhi: "of_int q < (2::rat) powi bq"
    by (simp_all add: power_int_def of_int_power_le_of_int_cancel_iff
        of_int_less_of_int_power_cancel_iff flip: of_int_power)
  have qpos: "(0::rat) < of_int q" and ppos: "(0::rat) < of_int p" using q p by simp_all
  have upper: "a < (2::rat) powi (bp - bq + 1)"
  proof -
    have "a * 2 powi (bq - 1) \<le> a * of_int q"
      using assms qlo by (intro mult_left_mono) simp_all
    also have "\<dots> = of_int p" using a qpos by simp
    also have "\<dots> < (2::rat) powi bp" by (rule phi)
    also have "\<dots> = (2::rat) powi (bp - bq + 1) * 2 powi (bq - 1)"
      by (simp flip: power_int_add)
    finally show ?thesis by simp
  qed
  have lower: "(2::rat) powi (bp - bq - 1) < a"
  proof -
    have "(2::rat) powi (bp - bq - 1) * of_int q < 2 powi (bp - bq - 1) * 2 powi bq"
      using qhi by (intro mult_strict_left_mono) simp_all
    also have "\<dots> = (2::rat) powi (bp - 1)" by (simp flip: power_int_add)
    also have "\<dots> \<le> of_int p" by (rule plo)
    also have "\<dots> = a * of_int q" using a qpos by simp
    finally show ?thesis using qpos by simp
  qed
  have fl: "floor_log2 a = (if pow2 (bp - bq) \<le> a then bp - bq else bp - bq - 1)"
    using pq by (simp add: floor_log2_def bp_def bq_def)
  show "pow2 (floor_log2 a) \<le> a"
    using lower by (auto simp: fl pow2_powi)
  show "a < pow2 (floor_log2 a + 1)"
    using upper by (auto simp: fl pow2_powi not_le)
qed

lemma round_magnitude_near:
  assumes "round_magnitude a = Some y"
  shows "\<bar>y - a\<bar> \<le> pow2 (max (floor_log2 a) (- 1022) - 52) / 2"
proof -
  define q where "q = pow2 (max (floor_log2 a) (- 1022) - 52)"
  have q: "0 < q" by (simp add: q_def pow2_powi)
  from assms have y: "y = of_int (round_half_even (a / q)) * q"
    by (simp add: round_magnitude_def Let_def q_def split: if_splits)
  have "y - a = (of_int (round_half_even (a / q)) - a / q) * q"
    using q by (simp add: y left_diff_distrib)
  then have "\<bar>y - a\<bar> = \<bar>of_int (round_half_even (a / q)) - a / q\<bar> * q"
    using q by (simp add: abs_mult)
  also have "\<dots> \<le> 1 / 2 * q"
    using q round_half_even_near [of "a / q"] by (intro mult_right_mono) simp_all
  finally show ?thesis by (simp add: q_def)
qed

lemma round_magnitude_relative:
  assumes "pow2 (- 1022) \<le> a" and "round_magnitude a = Some y"
  shows "\<bar>y - a\<bar> \<le> a / 2 ^ 53"
proof -
  have "0 < pow2 (- 1022)" by (simp add: pow2_powi)
  with assms(1) have pos: "0 < a" by simp
  have less: "(2::rat) powi (- 1022) < 2 powi (floor_log2 a + 1)"
    using assms(1) floor_log2_bounds(2) [OF pos] by (simp add: pow2_powi)
  have "- 1022 < floor_log2 a + 1"
  proof (rule ccontr)
    assume "\<not> - 1022 < floor_log2 a + 1"
    then have "floor_log2 a + 1 \<le> - 1022" by simp
    then have "(2::rat) powi (floor_log2 a + 1) \<le> 2 powi (- 1022)"
      by (intro power_int_increasing) simp_all
    with less show False by simp
  qed
  then have e: "max (floor_log2 a) (- 1022) = floor_log2 a" by simp
  have "\<bar>y - a\<bar> \<le> pow2 (floor_log2 a - 52) / 2"
    using round_magnitude_near [OF assms(2)] by (simp add: e)
  also have "\<dots> = pow2 (floor_log2 a) / 2 ^ 53"
    by (simp add: pow2_powi power_int_diff)
  also have "\<dots> \<le> a / 2 ^ 53"
    using floor_log2_bounds(1) [OF pos] by (simp add: divide_right_mono)
  finally show ?thesis .
qed

lemma round64_relative:
  assumes "pow2 (- 1022) \<le> \<bar>x\<bar>" and "round64 x = Finite y"
  shows "\<bar>y - x\<bar> \<le> \<bar>x\<bar> / 2 ^ 53"
proof -
  have "0 < pow2 (- 1022)" by (simp add: pow2_powi)
  with assms(1) have nz: "x \<noteq> 0" by auto
  with assms(2) obtain m where m: "round_magnitude \<bar>x\<bar> = Some m"
    and y: "y = (if 0 < x then m else - m)"
    by (auto simp: round64_def split: option.splits if_splits)
  from round_magnitude_relative [OF assms(1) m] have "\<bar>m - \<bar>x\<bar>\<bar> \<le> \<bar>x\<bar> / 2 ^ 53" .
  then show ?thesis
    using nz by (cases "0 < x") (simp_all add: y abs_minus_commute)
qed

lemma round_half_even_lower: "of_int k \<le> r \<Longrightarrow> k \<le> round_half_even r"
proof -
  assume "of_int k \<le> r"
  then have "k \<le> \<lfloor>r\<rfloor>" by (simp add: le_floor_iff)
  then show ?thesis by (simp add: round_half_even_def Let_def)
qed

lemma round_magnitude_lower:
  assumes "pow2 (- 1022) \<le> a" and "round_magnitude a = Some y"
  shows "pow2 (- 1022) \<le> y"
proof -
  have low: "0 < pow2 (- 1022)" by (simp add: pow2_powi)
  with assms(1) have pos: "0 < a" by simp
  have less: "(2::rat) powi (- 1022) < 2 powi (floor_log2 a + 1)"
    using assms(1) floor_log2_bounds(2) [OF pos] by (simp add: pow2_powi)
  have "- 1022 < floor_log2 a + 1"
  proof (rule ccontr)
    assume "\<not> - 1022 < floor_log2 a + 1"
    then have "floor_log2 a + 1 \<le> - 1022" by simp
    then have "(2::rat) powi (floor_log2 a + 1) \<le> 2 powi (- 1022)"
      by (intro power_int_increasing) simp_all
    with less show False by simp
  qed
  then have e: "max (floor_log2 a) (- 1022) = floor_log2 a" and ge: "- 1022 \<le> floor_log2 a"
    by simp_all
  define q where "q = pow2 (floor_log2 a - 52)"
  have q: "0 < q" by (simp add: q_def pow2_powi)
  have scale: "pow2 (floor_log2 a) = 2 ^ 52 * q"
    by (simp add: q_def pow2_powi power_int_diff)
  from assms(2) have y: "y = of_int (round_half_even (a / q)) * q"
    by (simp add: round_magnitude_def Let_def q_def e split: if_splits)
  have "2 ^ 52 * q \<le> a" using floor_log2_bounds(1) [OF pos] by (simp add: scale)
  then have "of_int (2 ^ 52) \<le> a / q" using q by (simp add: pos_le_divide_eq)
  then have "2 ^ 52 \<le> round_half_even (a / q)" by (rule round_half_even_lower)
  then have "(2::rat) ^ 52 \<le> of_int (round_half_even (a / q))"
    by (metis of_int_le_iff of_int_numeral of_int_power)
  then have "2 ^ 52 * q \<le> y" using q by (simp add: y)
  moreover have "pow2 (- 1022) \<le> pow2 (floor_log2 a)"
    unfolding pow2_powi using ge by (intro power_int_increasing) simp_all
  ultimately show ?thesis by (simp add: scale)
qed

lemma relative_bounds:
  fixes x y u :: rat
  shows "\<bar>y - x\<bar> \<le> x * u \<Longrightarrow> (1 - u) * x \<le> y \<and> y \<le> (1 + u) * x"
  by (simp add: abs_le_iff algebra_simps)

text \<open>One rounding, on a number that is zero or at least \<open>2\<^sup>-\<^sup>1\<^sup>0\<^sup>2\<^sup>2\<close>.\<close>

lemma round64_sandwich:
  assumes "x = 0 \<or> pow2 (- 1022) \<le> x" and "round64 x = Finite y"
  shows "(1 - 1 / 2 ^ 53) * x \<le> y \<and> y \<le> (1 + 1 / 2 ^ 53) * x \<and> (y = 0 \<or> pow2 (- 1022) \<le> y)"
proof (cases "x = 0")
  case True
  with assms(2) show ?thesis by (simp add: round64_def)
next
  case False
  with assms(1) have big: "pow2 (- 1022) \<le> x" by simp
  have "0 < pow2 (- 1022)" by (simp add: pow2_powi)
  with big have pos: "0 < x" by simp
  then have ax: "\<bar>x\<bar> = x" by simp
  from assms(2) pos have m: "round_magnitude x = Some y"
    by (auto simp: round64_def ax split: option.splits)
  from round_magnitude_relative [OF big m] have "\<bar>y - x\<bar> \<le> x * (1 / 2 ^ 53)"
    by simp
  from relative_bounds [OF this]
  have "(1 - 1 / 2 ^ 53) * x \<le> y" and "y \<le> (1 + 1 / 2 ^ 53) * x"
    by blast+
  moreover have "pow2 (- 1022) \<le> y" using big m by (rule round_magnitude_lower)
  ultimately show ?thesis by simp
qed

lemma upper_chain:
  fixes a :: rat
  assumes "1 \<le> a" and "0 \<le> p3"
    and "r1 \<le> a * p1" and "r2 \<le> a * p2" and "r3 \<le> a * p3"
    and "s \<le> a * (r1 + r2)" and "y \<le> a * (s + r3)"
  shows "y \<le> a ^ 3 * (p1 + p2 + p3)"
proof -
  have a: "0 \<le> a" using assms(1) by simp
  have "r1 + r2 \<le> a * (p1 + p2)"
    using assms(3,4) by (simp add: distrib_left)
  then have "a * (r1 + r2) \<le> a * (a * (p1 + p2))"
    using a by (rule mult_left_mono)
  with assms(6) have s: "s \<le> a * (a * (p1 + p2))" by simp
  have "1 * (a * p3) \<le> a * (a * p3)"
    using assms(1,2) a by (intro mult_right_mono) simp_all
  with assms(5) have "r3 \<le> a * (a * p3)" by simp
  with s have "s + r3 \<le> a * (a * (p1 + p2)) + a * (a * p3)" by simp
  then have "a * (s + r3) \<le> a * (a * (a * (p1 + p2)) + a * (a * p3))"
    using a by (rule mult_left_mono)
  with assms(7) have "y \<le> a * (a * (a * (p1 + p2)) + a * (a * p3))" by simp
  also have "\<dots> = a ^ 3 * (p1 + p2 + p3)"
    by (simp add: power3_eq_cube algebra_simps)
  finally show ?thesis .
qed

lemma lower_chain:
  fixes b :: rat
  assumes "0 \<le> b" and "b \<le> 1" and "0 \<le> p3"
    and "b * p1 \<le> r1" and "b * p2 \<le> r2" and "b * p3 \<le> r3"
    and "b * (r1 + r2) \<le> s" and "b * (s + r3) \<le> y"
  shows "b ^ 3 * (p1 + p2 + p3) \<le> y"
proof -
  have "b * (p1 + p2) \<le> r1 + r2"
    using assms(4,5) by (simp add: distrib_left)
  then have "b * (b * (p1 + p2)) \<le> b * (r1 + r2)"
    using assms(1) by (rule mult_left_mono)
  with assms(7) have s: "b * (b * (p1 + p2)) \<le> s" by simp
  have "0 \<le> b * p3" using assms(1,3) by simp
  then have "b * (b * p3) \<le> 1 * (b * p3)"
    using assms(2) by (intro mult_right_mono) simp_all
  with assms(6) have "b * (b * p3) \<le> r3" by simp
  with s have "b * (b * (p1 + p2)) + b * (b * p3) \<le> s + r3" by simp
  then have "b * (b * (b * (p1 + p2)) + b * (b * p3)) \<le> b * (s + r3)"
    using assms(1) by (rule mult_left_mono)
  with assms(8) have "b * (b * (b * (p1 + p2)) + b * (b * p3)) \<le> y" by simp
  moreover have "b * (b * (b * (p1 + p2)) + b * (b * p3)) = b ^ 3 * (p1 + p2 + p3)"
    by (simp add: power3_eq_cube algebra_simps)
  ultimately show ?thesis by simp
qed

lemma float_add_Finite_cases:
  assumes "a = PosInf \<or> (\<exists>x. a = Finite x \<and> 0 \<le> x)"
    and "b = PosInf \<or> (\<exists>y. b = Finite y \<and> 0 \<le> y)"
    and "float_add a b = Finite z"
  shows "\<exists>x y. a = Finite x \<and> b = Finite y \<and> round64 (x + y) = Finite z"
  using assms by (auto simp: float_add_def to_binary64_def)

lemma sum_in_range:
  fixes x y :: rat
  assumes "0 \<le> x" and "0 \<le> y" and "x = 0 \<or> low \<le> x" and "y = 0 \<or> low \<le> y"
  shows "x + y = 0 \<or> low \<le> x + y"
  using assms by auto

text \<open>
  Three products and two sums, each rounded once, on products that are zero or at least
  \<open>2\<^sup>-\<^sup>1\<^sup>0\<^sup>2\<^sup>2\<close>: a finite result is within three roundings of the exact sum.
\<close>

lemma rounded_weighted_sum_bounds:
  assumes "0 \<le> p1" and "0 \<le> p2" and "0 \<le> p3"
    and "p1 = 0 \<or> pow2 (- 1022) \<le> p1" and "p2 = 0 \<or> pow2 (- 1022) \<le> p2"
    and "p3 = 0 \<or> pow2 (- 1022) \<le> p3"
    and "float_add (float_add (round64 p1) (round64 p2)) (round64 p3) = Finite y"
  shows "(1 - 1 / 2 ^ 53) ^ 3 * (p1 + p2 + p3) \<le> y \<and> y \<le> (1 + 1 / 2 ^ 53) ^ 3 * (p1 + p2 + p3)"
proof -
  define a b :: rat where "a = 1 + 1 / 2 ^ 53" and "b = 1 - 1 / 2 ^ 53"
  have a: "1 \<le> a" and b: "0 \<le> b" "b \<le> 1" by (simp_all add: a_def b_def)
  note c1 = round64_nonneg [OF assms(1)] and c2 = round64_nonneg [OF assms(2)]
    and c3 = round64_nonneg [OF assms(3)]
  note c12 = float_add_nonneg [OF c1 c2]
  from float_add_Finite_cases [OF c12 c3 assms(7)]
  obtain s r3 where s: "float_add (round64 p1) (round64 p2) = Finite s"
    and r3: "round64 p3 = Finite r3" and y: "round64 (s + r3) = Finite y"
    by blast
  from float_add_Finite_cases [OF c1 c2 s]
  obtain r1 r2 where r1: "round64 p1 = Finite r1" and r2: "round64 p2 = Finite r2"
    and s': "round64 (r1 + r2) = Finite s"
    by blast
  from round64_sandwich [OF assms(4) r1]
  have b1: "b * p1 \<le> r1" "r1 \<le> a * p1" "r1 = 0 \<or> pow2 (- 1022) \<le> r1"
    by (simp_all add: a_def b_def)
  from round64_sandwich [OF assms(5) r2]
  have b2: "b * p2 \<le> r2" "r2 \<le> a * p2" "r2 = 0 \<or> pow2 (- 1022) \<le> r2"
    by (simp_all add: a_def b_def)
  from round64_sandwich [OF assms(6) r3]
  have b3: "b * p3 \<le> r3" "r3 \<le> a * p3" "r3 = 0 \<or> pow2 (- 1022) \<le> r3"
    by (simp_all add: a_def b_def)
  have n1: "0 \<le> r1" and n2: "0 \<le> r2" and n3: "0 \<le> r3"
    using assms(1-3) r1 r2 r3 round64_nonneg [of p1] round64_nonneg [of p2]
      round64_nonneg [of p3]
    by auto
  from round64_sandwich [OF sum_in_range [OF n1 n2 b1(3) b2(3)] s']
  have bs: "b * (r1 + r2) \<le> s" "s \<le> a * (r1 + r2)" "s = 0 \<or> pow2 (- 1022) \<le> s"
    by (simp_all add: a_def b_def)
  have ns: "0 \<le> s" using n1 n2 s' round64_nonneg [of "r1 + r2"] by auto
  from round64_sandwich [OF sum_in_range [OF ns n3 bs(3) b3(3)] y]
  have by': "b * (s + r3) \<le> y" "y \<le> a * (s + r3)"
    by (simp_all add: a_def b_def)
  from upper_chain [OF a assms(3) b1(2) b2(2) b3(2) bs(2) by'(2)]
    lower_chain [OF b assms(3) b1(1) b2(1) b3(1) bs(1) by'(1)]
  show ?thesis by (simp add: a_def b_def)
qed

lemma floor_log2_unique:
  assumes "pow2 e \<le> a" and "a < pow2 (e + 1)"
  shows "floor_log2 a = e"
proof -
  have "0 < pow2 e" by (simp add: pow2_powi)
  with assms(1) have pos: "0 < a" by simp
  note fl = floor_log2_bounds [OF pos]
  have "(2::rat) powi e < 2 powi (floor_log2 a + 1)"
    using assms(1) fl(2) by (simp add: pow2_powi)
  then have 1: "e < floor_log2 a + 1"
    by (rule_tac ccontr) (metis not_less power_int_increasing one_le_numeral)
  have "(2::rat) powi floor_log2 a < 2 powi (e + 1)"
    using assms(2) fl(1) by (simp add: pow2_powi)
  then have 2: "floor_log2 a < e + 1"
    by (rule_tac ccontr) (metis not_less power_int_increasing one_le_numeral)
  from 1 2 show ?thesis by simp
qed

lemma round_half_even_of_int: "round_half_even (of_int k) = k"
  by (simp add: round_half_even_def)

lemma round_half_even_upper: "r \<le> of_int k \<Longrightarrow> round_half_even r \<le> k"
proof -
  assume r: "r \<le> of_int k"
  show ?thesis
  proof (cases "r = of_int k")
    case True
    then show ?thesis by (simp add: round_half_even_of_int)
  next
    case False
    with r have "r < of_int k" by simp
    then have "\<lfloor>r\<rfloor> < k" by (simp add: floor_less_iff)
    then show ?thesis by (simp add: round_half_even_def Let_def)
  qed
qed

lemma pow2_step: "pow2 (e + 1) = 2 * pow2 e"
  by (simp add: pow2_powi power_int_add)

lemma pow2_scale: "pow2 e = 2 ^ 52 * pow2 (e - 52)"
  by (simp add: pow2_powi power_int_diff)

text \<open>A magnitude on the grid of exponent \<open>e\<close> rounds to itself.\<close>

lemma round_magnitude_on_grid:
  assumes "- 1022 \<le> e" and "e \<le> 1023"
    and "2 ^ 52 \<le> n \<or> e = - 1022 \<and> 0 < n" and "n < 2 ^ 53"
  shows "round_magnitude (of_int n * pow2 (e - 52)) = Some (of_int n * pow2 (e - 52))"
proof -
  define q where "q = pow2 (e - 52)"
  define y where "y = of_int n * q"
  have q: "0 < q" by (simp add: q_def pow2_powi)
  have n: "0 < n" using assms(3) by auto
  have upper: "y < pow2 (e + 1)"
  proof -
    have "of_int n < (2::rat) ^ 53" using assms(4)
      by (metis of_int_less_iff of_int_numeral of_int_power)
    then have "y < 2 ^ 53 * q" using q by (simp add: y_def)
    also have "\<dots> = pow2 (e + 1)" by (simp add: q_def pow2_step pow2_scale [of e])
    finally show ?thesis .
  qed
  have e': "max (floor_log2 y) (- 1022) = e"
  proof (cases "2 ^ 52 \<le> n")
    case True
    then have "(2::rat) ^ 52 \<le> of_int n"
      by (metis of_int_le_iff of_int_numeral of_int_power)
    then have "2 ^ 52 * q \<le> y" using q by (simp add: y_def)
    then have "pow2 e \<le> y" by (simp add: q_def pow2_scale [of e])
    then have "floor_log2 y = e" using upper by (rule floor_log2_unique)
    with assms(1) show ?thesis by simp
  next
    case False
    with assms(3) have e: "e = - 1022" by simp
    have ypos: "0 < y" using n q by (simp add: y_def)
    have "pow2 (floor_log2 y) < pow2 (e + 1)"
      using floor_log2_bounds(1) [OF ypos] upper by simp
    then have "floor_log2 y < e + 1"
      unfolding pow2_powi
      by (rule_tac ccontr) (metis not_less power_int_increasing one_le_numeral)
    with e show ?thesis by simp
  qed
  have "y / q = of_int n" using q by (simp add: y_def)
  then have "round_half_even (y / q) = n" by (simp add: round_half_even_of_int)
  moreover have "\<not> 1024 \<le> e" using assms(2) by simp
  moreover have "\<not> (e = 1023 \<and> 2 ^ 53 \<le> n)" using assms(4) by simp
  ultimately have "round_magnitude y = Some (of_int n * q)"
    by (simp add: round_magnitude_def Let_def e' q_def [symmetric])
  then show ?thesis by (simp add: y_def q_def)
qed

lemma round_magnitude_fixed:
  assumes "0 < a" and "round_magnitude a = Some y" and "0 < y"
  shows "round_magnitude y = Some y"
proof -
  define e where "e = max (floor_log2 a) (- 1022)"
  define q where "q = pow2 (e - 52)"
  define n where "n = round_half_even (a / q)"
  have q: "0 < q" by (simp add: q_def pow2_powi)
  from assms(2) have e_hi: "e \<le> 1023" and over: "\<not> (e = 1023 \<and> 2 ^ 53 \<le> n)"
    and y: "y = of_int n * q"
    by (simp_all add: round_magnitude_def Let_def e_def [symmetric] q_def [symmetric]
        n_def [symmetric] split: if_splits)
  have e_lo: "- 1022 \<le> e" by (simp add: e_def)
  have n_pos: "0 < n" using assms(3) q by (simp add: y zero_less_mult_iff)
  have "a < pow2 (floor_log2 a + 1)" by (rule floor_log2_bounds(2) [OF assms(1)])
  also have "\<dots> \<le> pow2 (e + 1)"
    unfolding pow2_powi by (intro power_int_increasing) (simp_all add: e_def)
  also have "\<dots> = 2 ^ 53 * q" by (simp add: q_def pow2_step pow2_scale [of e])
  finally have "a / q < of_int (2 ^ 53)" using q by (simp add: pos_divide_less_eq)
  then have n_hi: "n \<le> 2 ^ 53" unfolding n_def by (intro round_half_even_upper) simp
  have n_lo: "2 ^ 52 \<le> n \<or> e = - 1022"
  proof (cases "e = - 1022")
    case False
    then have "e = floor_log2 a" by (simp add: e_def max_def split: if_splits)
    then have "pow2 e \<le> a"
      using floor_log2_bounds(1) [OF assms(1)] by simp
    moreover have "pow2 e = 2 ^ 52 * q" by (simp add: q_def pow2_scale [of e])
    ultimately have "2 ^ 52 * q \<le> a" by simp
    then have "of_int (2 ^ 52) \<le> a / q" using q by (simp add: pos_le_divide_eq)
    then have "2 ^ 52 \<le> n" unfolding n_def by (rule round_half_even_lower)
    then show ?thesis by simp
  qed simp
  show ?thesis
  proof (cases "n = 2 ^ 53")
    case False
    with n_hi have "n < 2 ^ 53" by simp
    with n_lo n_pos round_magnitude_on_grid [OF e_lo e_hi, of n] show ?thesis
      by (auto simp: y q_def)
  next
    case True
    with over e_hi have e1: "e + 1 \<le> 1023" by simp
    have "y = of_int (2 ^ 52) * pow2 (e + 1 - 52)"
      by (simp add: y True q_def pow2_powi power_int_diff power_int_add)
    moreover have "round_magnitude (of_int (2 ^ 52) * pow2 (e + 1 - 52))
        = Some (of_int (2 ^ 52) * pow2 (e + 1 - 52))"
      using e_lo e1 by (intro round_magnitude_on_grid) simp_all
    ultimately show ?thesis by simp
  qed
qed

text \<open>What \<open>round64\<close> returns is a binary64 number: rounding it again changes nothing.\<close>

lemma round64_is_binary64: "round64 x = Finite y \<Longrightarrow> is_binary64 y"
proof -
  assume r: "round64 x = Finite y"
  show ?thesis
  proof (cases "y = 0")
    case True
    then show ?thesis by (simp add: is_binary64_def round64_def)
  next
    case False
    with r have x: "x \<noteq> 0" by (auto simp: round64_def)
    with r obtain m where m: "round_magnitude \<bar>x\<bar> = Some m"
      and y: "y = (if 0 < x then m else - m)"
      by (auto simp: round64_def split: option.splits if_splits)
    from x have "0 \<le> \<bar>x\<bar>" by simp
    then have "0 \<le> m" using m by (rule round_magnitude_nonneg)
    with False y have mpos: "0 < m" by (auto split: if_splits)
    from x have "0 < \<bar>x\<bar>" by simp
    then have fixed: "round_magnitude m = Some m" using m mpos by (rule round_magnitude_fixed)
    show ?thesis
    proof (cases "0 < x")
      case True
      with y mpos fixed show ?thesis by (simp add: is_binary64_def round64_def)
    next
      case False
      with y mpos fixed show ?thesis by (simp add: is_binary64_def round64_def)
    qed
  qed
qed

lemma to_binary64_is_binary64: "to_binary64 a = Finite y \<Longrightarrow> is_binary64 y"
  by (cases a) (simp_all add: to_binary64_def round64_is_binary64)

lemma pow2_low_le_one: "pow2 (- 1022) \<le> 1"
proof -
  have "(2::rat) powi (- 1022) \<le> 2 powi 0" by (intro power_int_increasing) simp_all
  then show ?thesis by (simp add: pow2_powi)
qed

lemma round64_overflow:
  assumes "pow2 1024 \<le> x"
  shows "round64 x = PosInf"
proof -
  have "0 < pow2 1024" by (simp add: pow2_powi)
  with assms have pos: "0 < x" by simp
  then have ax: "\<bar>x\<bar> = x" by simp
  have "(2::rat) powi 1024 < 2 powi (floor_log2 x + 1)"
    using assms floor_log2_bounds(2) [OF pos] unfolding pow2_powi by (rule le_less_trans)
  then have "1024 < floor_log2 x + 1"
    by (rule_tac ccontr) (metis not_less power_int_increasing one_le_numeral)
  then have "round_magnitude x = None"
    by (simp add: round_magnitude_def Let_def)
  with pos show ?thesis by (simp add: round64_def ax)
qed

lemma big_storage_is_float: "round64 (2 ^ 1020) = Finite (2 ^ 1020)"
proof -
  have "round_magnitude (of_int (2 ^ 52) * pow2 (1020 - 52)) = Some (of_int (2 ^ 52) * pow2 (1020 - 52))"
    by (intro round_magnitude_on_grid) simp_all
  moreover have "of_int (2 ^ 52) * pow2 (1020 - 52) = (2::rat) ^ 1020"
    by (simp add: pow2_def flip: power_add)
  ultimately have "round_magnitude (2 ^ 1020) = Some (2 ^ 1020)" by simp
  then show ?thesis by (simp add: round64_def)
qed

text \<open>A storage of \<open>2\<^sup>1\<^sup>0\<^sup>2\<^sup>0\<close> TB is a float, and its cost overflows.\<close>

lemma overflow_example:
  "lekalink_cost_float default_rates
     \<lparr> vms = 0, storage = Finite (2 ^ 1020), bandwidth = Finite 0, current_cost = c \<rparr>
   = Inr PosInf"
proof -
  let ?f1 = "7602903003745485 / 8796093022208 :: rat"
  let ?f2 = "7656119366529843 / 8796093022208 :: rat"
  have v: "round64 (of_int 0) = Finite 0" and z: "round64 0 = Finite 0"
    by (simp_all add: round64_def)
  have vm: "round64 864.35 = Finite ?f1" by code_simp
  have st: "round64 870.40 = Finite ?f2" by code_simp
  have bw: "round64 7.50 = Finite 7.50" by code_simp
  have cost: "lekalink_cost_float default_rates
     \<lparr> vms = 0, storage = Finite (2 ^ 1020), bandwidth = Finite 0, current_cost = c \<rparr>
   = Inr (float_add (float_add (round64 (0 * ?f1)) (round64 (2 ^ 1020 * ?f2)))
                    (round64 (0 * 7.50)))"
    unfolding default_rates_def DEFAULT_VM_RATE_def DEFAULT_STORAGE_RATE_PER_TB_def
      DEFAULT_BANDWIDTH_RATE_PER_MBPS_def
    by (rule lekalink_cost_float_on_floats [OF v big_storage_is_float z vm st bw])
  have "pow2 1024 = 2 ^ 1020 * 16" by (simp add: pow2_def flip: power_add)
  also have "\<dots> \<le> 2 ^ 1020 * ?f2"
    by (intro mult_left_mono) simp_all
  finally have big: "round64 (2 ^ 1020 * ?f2) = PosInf"
    by (rule round64_overflow)
  have small: "round64 (0 * ?f1) = Finite 0" "round64 (0 * 7.50) = Finite 0"
    by (simp_all add: round64_def)
  have "float_add (float_add (Finite 0) PosInf) (Finite 0) = PosInf"
    by (simp add: float_add_def to_binary64_def)
  then show ?thesis by (simp only: cost big small)
qed

text \<open>
  Claim C1, as amended. Take quantities and rates that are not negative and within the range
  of a float, each read as the nearest float. The estimated cost is
  \<open>vms * VM_RATE + storage * STORAGE_RATE_PER_TB + bandwidth * BANDWIDTH_RATE_PER_MBPS\<close> in
  binary64: each product and each sum is rounded once to the nearest float, and nothing else
  rounds. The result is a float that is not negative, or infinity on overflow, as it is for
  \<open>2\<^sup>1\<^sup>0\<^sup>2\<^sup>0\<close> TB at the default rates. It is the exact weighted sum of the floats whenever
  the three products and the two sums are floats. When no product falls between zero and
  \<open>2\<^sup>-\<^sup>1\<^sup>0\<^sup>2\<^sup>2\<close>, a finite result is within three roundings of the exact sum: between
  \<open>(1 - 2\<^sup>-\<^sup>5\<^sup>3)\<^sup>3\<close> and \<open>(1 + 2\<^sup>-\<^sup>5\<^sup>3)\<^sup>3\<close> times it. For 10 machines, 2 TB and 100 Mbps at the
  default rates the cost is the float nearest to 11134.30.
\<close>

theorem estimated_cost_is_rounded_weighted_sum:
  assumes "0 \<le> v" and "0 \<le> s" and "0 \<le> b" and "0 \<le> rv" and "0 \<le> rs" and "0 \<le> rb"
    and "round64 (of_int v) = Finite fv" and "round64 s = Finite fs" and "round64 b = Finite fb"
    and "round64 rv = Finite frv" and "round64 rs = Finite frs" and "round64 rb = Finite frb"
  shows "lekalink_cost_float
           \<lparr> VM_RATE = Finite rv, STORAGE_RATE_PER_TB = Finite rs,
             BANDWIDTH_RATE_PER_MBPS = Finite rb \<rparr>
           \<lparr> vms = v, storage = Finite s, bandwidth = Finite b, current_cost = c \<rparr>
         = Inr (float_add (float_add (round64 (fv * frv)) (round64 (fs * frs)))
                          (round64 (fb * frb)))
       \<and> (lekalink_cost_float
           \<lparr> VM_RATE = Finite rv, STORAGE_RATE_PER_TB = Finite rs,
             BANDWIDTH_RATE_PER_MBPS = Finite rb \<rparr>
           \<lparr> vms = v, storage = Finite s, bandwidth = Finite b, current_cost = c \<rparr>
             = Inr PosInf
           \<or> (\<exists>y. lekalink_cost_float
                 \<lparr> VM_RATE = Finite rv, STORAGE_RATE_PER_TB = Finite rs,
                   BANDWIDTH_RATE_PER_MBPS = Finite rb \<rparr>
                 \<lparr> vms = v, storage = Finite s, bandwidth = Finite b, current_cost = c \<rparr>
                   = Inr (Finite y) \<and> 0 \<le> y \<and> is_binary64 y))
       \<and> ((fv * frv = 0 \<or> pow2 (- 1022) \<le> fv * frv) \<and>
          (fs * frs = 0 \<or> pow2 (- 1022) \<le> fs * frs) \<and>
          (fb * frb = 0 \<or> pow2 (- 1022) \<le> fb * frb) \<longrightarrow>
          (\<forall>y. lekalink_cost_float
                 \<lparr> VM_RATE = Finite rv, STORAGE_RATE_PER_TB = Finite rs,
                   BANDWIDTH_RATE_PER_MBPS = Finite rb \<rparr>
                 \<lparr> vms = v, storage = Finite s, bandwidth = Finite b, current_cost = c \<rparr>
                   = Inr (Finite y) \<longrightarrow>
               (1 - 1 / 2 ^ 53) ^ 3 * (fv * frv + fs * frs + fb * frb) \<le> y \<and>
               y \<le> (1 + 1 / 2 ^ 53) ^ 3 * (fv * frv + fs * frs + fb * frb)))
       \<and> (is_binary64 (fv * frv) \<and> is_binary64 (fs * frs) \<and> is_binary64 (fb * frb) \<and>
          is_binary64 (fv * frv + fs * frs) \<and>
          is_binary64 (fv * frv + fs * frs + fb * frb) \<longrightarrow>
          lekalink_cost_float
            \<lparr> VM_RATE = Finite rv, STORAGE_RATE_PER_TB = Finite rs,
              BANDWIDTH_RATE_PER_MBPS = Finite rb \<rparr>
            \<lparr> vms = v, storage = Finite s, bandwidth = Finite b, current_cost = c \<rparr>
          = Inr (Finite (fv * frv + fs * frs + fb * frb)))
       \<and> lekalink_cost_float default_rates
           \<lparr> vms = 10, storage = Finite 2, bandwidth = Finite 100, current_cost = c \<rparr>
         = Inr (round64 11134.30)
       \<and> round64 11134.30 = Finite (3060573079286579 / 274877906944)
       \<and> lekalink_cost_float default_rates
           \<lparr> vms = 0, storage = Finite (2 ^ 1020), bandwidth = Finite 0, current_cost = c \<rparr>
         = Inr PosInf"
proof -
  let ?rt = "\<lparr> VM_RATE = Finite rv, STORAGE_RATE_PER_TB = Finite rs,
               BANDWIDTH_RATE_PER_MBPS = Finite rb \<rparr>"
  let ?u = "\<lparr> vms = v, storage = Finite s, bandwidth = Finite b, current_cost = c \<rparr>"
  let ?p1 = "round64 (fv * frv)" and ?p2 = "round64 (fs * frs)" and ?p3 = "round64 (fb * frb)"
  have cost: "lekalink_cost_float ?rt ?u = Inr (float_add (float_add ?p1 ?p2) ?p3)"
    using assms(7-12) by (rule lekalink_cost_float_on_floats)
  have "0 \<le> fv" and "0 \<le> fs" and "0 \<le> fb" and "0 \<le> frv" and "0 \<le> frs" and "0 \<le> frb"
    using assms round64_Finite_nonneg [of "of_int v" fv] round64_Finite_nonneg [of s fs]
      round64_Finite_nonneg [of b fb] round64_Finite_nonneg [of rv frv]
      round64_Finite_nonneg [of rs frs] round64_Finite_nonneg [of rb frb]
    by simp_all
  then have nonneg: "0 \<le> fv * frv" "0 \<le> fs * frs" "0 \<le> fb * frb"
    by simp_all
  then have p1: "?p1 = PosInf \<or> (\<exists>y. ?p1 = Finite y \<and> 0 \<le> y)"
    and p2: "?p2 = PosInf \<or> (\<exists>y. ?p2 = Finite y \<and> 0 \<le> y)"
    and p3: "?p3 = PosInf \<or> (\<exists>y. ?p3 = Finite y \<and> 0 \<le> y)"
    by (simp_all add: round64_nonneg)
  have "float_add (float_add ?p1 ?p2) ?p3 = PosInf
      \<or> (\<exists>y. float_add (float_add ?p1 ?p2) ?p3 = Finite y \<and> 0 \<le> y)"
    by (intro float_add_nonneg p1 p2 p3)
  moreover have "\<And>y. float_add (float_add ?p1 ?p2) ?p3 = Finite y \<Longrightarrow> is_binary64 y"
    unfolding float_add_def [of "float_add ?p1 ?p2"] by (rule to_binary64_is_binary64)
  ultimately have range: "lekalink_cost_float ?rt ?u = Inr PosInf
      \<or> (\<exists>y. lekalink_cost_float ?rt ?u = Inr (Finite y) \<and> 0 \<le> y \<and> is_binary64 y)"
    using cost by auto
  have near: "(fv * frv = 0 \<or> pow2 (- 1022) \<le> fv * frv) \<and>
          (fs * frs = 0 \<or> pow2 (- 1022) \<le> fs * frs) \<and>
          (fb * frb = 0 \<or> pow2 (- 1022) \<le> fb * frb) \<longrightarrow>
          (\<forall>y. lekalink_cost_float ?rt ?u = Inr (Finite y) \<longrightarrow>
               (1 - 1 / 2 ^ 53) ^ 3 * (fv * frv + fs * frs + fb * frb) \<le> y \<and>
               y \<le> (1 + 1 / 2 ^ 53) ^ 3 * (fv * frv + fs * frs + fb * frb))"
    using rounded_weighted_sum_bounds [OF nonneg] cost by auto
  have exact: "is_binary64 (fv * frv) \<and> is_binary64 (fs * frs) \<and> is_binary64 (fb * frb) \<and>
          is_binary64 (fv * frv + fs * frs) \<and>
          is_binary64 (fv * frv + fs * frs + fb * frb) \<longrightarrow>
          lekalink_cost_float ?rt ?u = Inr (Finite (fv * frv + fs * frs + fb * frb))"
    using cost by (simp add: is_binary64_def float_add_Finite)
  have example: "lekalink_cost_float default_rates
           \<lparr> vms = 10, storage = Finite 2, bandwidth = Finite 100, current_cost = c \<rparr>
         = Inr (Finite (3060573079286579 / 274877906944))"
    by (simp add: lekalink_cost_float_def) code_simp
  have nearest: "round64 11134.30 = Finite (3060573079286579 / 274877906944)"
    by code_simp
  from cost range near exact example nearest overflow_example [of c] show ?thesis by simp
qed

theorem estimated_cost_is_rounded_weighted_sum_witness:
  "((0::int) \<le> 3 \<and> (0::rat) \<le> 1.5 \<and> (0::rat) \<le> 20 \<and> (0::rat) \<le> 500 \<and> (0::rat) \<le> 900 \<and>
    (0::rat) \<le> 8 \<and> round64 (of_int 3) = Finite 3 \<and> round64 1.5 = Finite 1.5 \<and>
    round64 20 = Finite 20 \<and> round64 500 = Finite 500 \<and> round64 900 = Finite 900 \<and>
    round64 8 = Finite 8) \<and>
   (is_binary64 (3 * 500) \<and> is_binary64 (1.5 * 900) \<and> is_binary64 (20 * 8) \<and>
    is_binary64 (3 * 500 + 1.5 * 900) \<and> is_binary64 (3 * 500 + 1.5 * 900 + 20 * 8)) \<and>
   (pow2 (- 1022) \<le> 3 * 500 \<and> pow2 (- 1022) \<le> 1.5 * 900 \<and> pow2 (- 1022) \<le> 20 * 8) \<and>
   lekalink_cost_float
     \<lparr> VM_RATE = Finite 500, STORAGE_RATE_PER_TB = Finite 900,
       BANDWIDTH_RATE_PER_MBPS = Finite 8 \<rparr>
     \<lparr> vms = 3, storage = Finite 1.5, bandwidth = Finite 20, current_cost = Finite 4000 \<rparr>
   = Inr (Finite 3010)"
proof -
  have signs: "(0::int) \<le> 3" "(0::rat) \<le> 1.5" "(0::rat) \<le> 20" "(0::rat) \<le> 500"
    "(0::rat) \<le> 900" "(0::rat) \<le> 8"
    by simp_all
  have floats: "round64 (of_int 3) = Finite 3" "round64 1.5 = Finite 1.5"
    "round64 20 = Finite 20" "round64 500 = Finite 500" "round64 900 = Finite 900"
    "round64 8 = Finite 8"
    by code_simp+
  have results: "is_binary64 (3 * 500) \<and> is_binary64 (1.5 * 900) \<and> is_binary64 (20 * 8) \<and>
    is_binary64 (3 * 500 + 1.5 * 900) \<and> is_binary64 (3 * 500 + 1.5 * 900 + 20 * 8)"
    by code_simp
  have range: "pow2 (- 1022) \<le> 3 * 500 \<and> pow2 (- 1022) \<le> 1.5 * 900 \<and>
      pow2 (- 1022) \<le> 20 * 8"
    using pow2_low_le_one by simp
  from estimated_cost_is_rounded_weighted_sum [OF signs floats, of "Finite 4000"] results
  have "lekalink_cost_float
     \<lparr> VM_RATE = Finite 500, STORAGE_RATE_PER_TB = Finite 900,
       BANDWIDTH_RATE_PER_MBPS = Finite 8 \<rparr>
     \<lparr> vms = 3, storage = Finite 1.5, bandwidth = Finite 20, current_cost = Finite 4000 \<rparr>
   = Inr (Finite (3 * 500 + 1.5 * 900 + 20 * 8))"
    by blast
  then have "lekalink_cost_float
     \<lparr> VM_RATE = Finite 500, STORAGE_RATE_PER_TB = Finite 900,
       BANDWIDTH_RATE_PER_MBPS = Finite 8 \<rparr>
     \<lparr> vms = 3, storage = Finite 1.5, bandwidth = Finite 20, current_cost = Finite 4000 \<rparr>
   = Inr (Finite 3010)"
    by simp
  with signs floats results range show ?thesis by blast
qed

theorem estimated_cost_example_counterexample:
  "lekalink_cost_float default_rates
     \<lparr> vms = 10, storage = Finite 2, bandwidth = Finite 100, current_cost = Finite 5000 \<rparr>
   = Inr (Finite (3060573079286579 / 274877906944))
   \<and> (3060573079286579 / 274877906944 :: rat) \<noteq> 10133.30
   \<and> round64 10133.30 \<noteq> Finite (3060573079286579 / 274877906944)
   \<and> lekalink_cost_float default_rates
       \<lparr> vms = 9, storage = Finite 0, bandwidth = Finite 0, current_cost = Finite 0 \<rparr>
     = Inr (Finite (8553265879213671 / 1099511627776))
   \<and> to_binary64 DEFAULT_VM_RATE = Finite (7602903003745485 / 8796093022208)
   \<and> (8553265879213671 / 1099511627776 :: rat)
       \<noteq> 9 * (7602903003745485 / 8796093022208) + 0 * 870.40 + 0 * 7.50
   \<and> (8553265879213671 / 1099511627776 :: rat) \<noteq> 9 * 864.35 + 0 * 870.40 + 0 * 7.50"
proof (intro conjI)
  show "lekalink_cost_float default_rates
     \<lparr> vms = 10, storage = Finite 2, bandwidth = Finite 100, current_cost = Finite 5000 \<rparr>
   = Inr (Finite (3060573079286579 / 274877906944))"
    by code_simp
  show "round64 10133.30 \<noteq> Finite (3060573079286579 / 274877906944)"
    by code_simp
  show "lekalink_cost_float default_rates
       \<lparr> vms = 9, storage = Finite 0, bandwidth = Finite 0, current_cost = Finite 0 \<rparr>
     = Inr (Finite (8553265879213671 / 1099511627776))"
    by code_simp
  show "to_binary64 DEFAULT_VM_RATE = Finite (7602903003745485 / 8796093022208)"
    by code_simp
qed simp_all

text \<open>
  Claim C5, as amended. The monthly saving is the current cost, read as the nearest float,
  minus the estimated cost in binary64: one subtraction, rounded once to the nearest float,
  the same expression whatever its sign, and rounding treats the two signs alike. It is the
  exact difference of the two floats whenever that difference is a float, and otherwise
  within one rounding of it: a finite result is a float, at most \<open>2\<^sup>-\<^sup>5\<^sup>3\<close> times the
  difference away from it when the difference is not below \<open>2\<^sup>-\<^sup>1\<^sup>0\<^sup>2\<^sup>2\<close> in magnitude. With a current cost of 5000 and the estimate of the
  example it is negative: 5000 minus the float nearest to 11134.30, exactly.
\<close>

theorem monthly_savings_is_rounded_difference:
  assumes "lekalink_cost_float rt u = Inr (Finite e)"
    and "current_cost u = Finite c" and "round64 c = Finite fc"
  shows "monthly_savings_float rt u = Inr (round64 (fc - e))
       \<and> (is_binary64 (fc - e) \<longrightarrow> monthly_savings_float rt u = Inr (Finite (fc - e)))
       \<and> round64 (e - fc) = py_neg (round64 (fc - e))
       \<and> (\<forall>m. monthly_savings_float rt u = Inr (Finite m) \<longrightarrow>
             is_binary64 m \<and>
             (pow2 (- 1022) \<le> \<bar>fc - e\<bar> \<longrightarrow> \<bar>m - (fc - e)\<bar> \<le> \<bar>fc - e\<bar> / 2 ^ 53))
       \<and> monthly_savings_float default_rates
           \<lparr> vms = 10, storage = Finite 2, bandwidth = Finite 100, current_cost = Finite 5000 \<rparr>
         = Inr (Finite (5000 - 3060573079286579 / 274877906944))
       \<and> (5000 - 3060573079286579 / 274877906944 :: rat) < 0"
proof -
  have saving: "monthly_savings_float rt u = Inr (round64 (fc - e))"
    using assms by (simp add: monthly_savings_float_def to_binary64_def float_sub_Finite)
  then have exact: "is_binary64 (fc - e) \<longrightarrow> monthly_savings_float rt u = Inr (Finite (fc - e))"
    by (simp add: is_binary64_def)
  have alike: "round64 (e - fc) = py_neg (round64 (fc - e))"
    using round64_minus [of "fc - e"] by simp
  have near: "\<forall>m. monthly_savings_float rt u = Inr (Finite m) \<longrightarrow>
             is_binary64 m \<and>
             (pow2 (- 1022) \<le> \<bar>fc - e\<bar> \<longrightarrow> \<bar>m - (fc - e)\<bar> \<le> \<bar>fc - e\<bar> / 2 ^ 53)"
    using saving round64_is_binary64 [of "fc - e"] round64_relative [of "fc - e"]
    by auto
  have example: "monthly_savings_float default_rates
           \<lparr> vms = 10, storage = Finite 2, bandwidth = Finite 100, current_cost = Finite 5000 \<rparr>
         = Inr (Finite (5000 - 3060573079286579 / 274877906944))"
    by code_simp
  have negative: "(5000 - 3060573079286579 / 274877906944 :: rat) < 0" by simp
  from saving exact alike near example negative show ?thesis by blast
qed

theorem monthly_savings_is_rounded_difference_witness:
  "(lekalink_cost_float default_rates
      \<lparr> vms = 10, storage = Finite 0, bandwidth = Finite 0, current_cost = Finite 9000 \<rparr>
      = Inr (Finite 8643.5) \<and>
    current_cost
      \<lparr> vms = 10, storage = Finite 0, bandwidth = Finite 0, current_cost = Finite 9000 \<rparr>
      = Finite 9000 \<and>
    round64 9000 = Finite 9000 \<and> is_binary64 (9000 - 8643.5) \<and>
    pow2 (- 1022) \<le> \<bar>9000 - 8643.5\<bar>) \<and>
   monthly_savings_float default_rates
     \<lparr> vms = 10, storage = Finite 0, bandwidth = Finite 0, current_cost = Finite 9000 \<rparr>
   = Inr (Finite 356.5) \<and>
   is_binary64 356.5 \<and> \<bar>356.5 - (9000 - 8643.5)\<bar> \<le> (\<bar>9000 - 8643.5\<bar> / 2 ^ 53 :: rat)"
proof -
  let ?u = "\<lparr> vms = 10, storage = Finite 0, bandwidth = Finite 0, current_cost = Finite 9000 \<rparr>"
  have cost: "lekalink_cost_float default_rates ?u = Inr (Finite 8643.5)" by code_simp
  have current: "current_cost ?u = Finite 9000" by simp
  have float: "round64 9000 = Finite 9000" by code_simp
  have difference: "is_binary64 (9000 - 8643.5)" by code_simp
  have range: "pow2 (- 1022) \<le> \<bar>9000 - 8643.5\<bar>"
    using pow2_low_le_one by simp
  note inst = monthly_savings_is_rounded_difference [OF cost current float]
  from inst difference
  have "monthly_savings_float default_rates ?u = Inr (Finite (9000 - 8643.5))"
    by blast
  then have saving: "monthly_savings_float default_rates ?u = Inr (Finite 356.5)" by simp
  from inst have near: "\<forall>m. monthly_savings_float default_rates ?u = Inr (Finite m) \<longrightarrow>
             is_binary64 m \<and>
             (pow2 (- 1022) \<le> \<bar>9000 - 8643.5\<bar> \<longrightarrow>
              \<bar>m - (9000 - 8643.5)\<bar> \<le> \<bar>9000 - 8643.5\<bar> / 2 ^ 53)"
    by (elim conjE)
  note at_saving = near [rule_format, OF saving]
  from at_saving have is_float: "is_binary64 356.5" by (rule conjunct1)
  from at_saving range
  have close: "\<bar>356.5 - (9000 - 8643.5)\<bar> \<le> (\<bar>9000 - 8643.5\<bar> / 2 ^ 53 :: rat)"
    by (rule conjunct2 [THEN mp])
  show ?thesis
    by (intro conjI cost current float difference range saving is_float close)
qed

theorem monthly_savings_exact_counterexample:
  "lekalink_cost_float default_rates
     \<lparr> vms = 10, storage = Finite 0, bandwidth = Finite 0, current_cost = Finite 100.10 \<rparr>
   = Inr (Finite 8643.5)
   \<and> to_binary64 (Finite 100.10) = Finite (3521955646092083 / 35184372088832)
   \<and> monthly_savings_float default_rates
       \<lparr> vms = 10, storage = Finite 0, bandwidth = Finite 0, current_cost = Finite 100.10 \<rparr>
     = Inr (Finite (- (4696783820370739 / 549755813888)))
   \<and> (- (4696783820370739 / 549755813888) :: rat) \<noteq> 3521955646092083 / 35184372088832 - 8643.5
   \<and> (- (4696783820370739 / 549755813888) :: rat) \<noteq> 100.10 - 8643.5"
proof (intro conjI)
  show "lekalink_cost_float default_rates
     \<lparr> vms = 10, storage = Finite 0, bandwidth = Finite 0, current_cost = Finite 100.10 \<rparr>
   = Inr (Finite 8643.5)"
    by code_simp
  show "to_binary64 (Finite 100.10) = Finite (3521955646092083 / 35184372088832)"
    by code_simp
  show "monthly_savings_float default_rates
       \<lparr> vms = 10, storage = Finite 0, bandwidth = Finite 0, current_cost = Finite 100.10 \<rparr>
     = Inr (Finite (- (4696783820370739 / 549755813888)))"
    by code_simp
qed simp_all

section \<open>Validation\<close>

lemma validate_inputs_messages:
  "fst (validate_inputs company contact job mail tel) =
       (if company = [] then [''Company Name is required.''] else [])
     @ (if contact = [] then [''Contact Name is required.''] else [])
     @ (if job = [] then [''Job Title is required.''] else [])
     @ (if mail = [] then [''Email is required.'']
        else if CHR ''@'' \<notin> set mail then [''Please enter a valid email address.'']
        else [])
     @ (if tel = [] then [''Phone Number is required.''] else [])"
  by (simp add: validate_inputs_def Let_def)

lemma validate_inputs_verdict:
  "snd (validate_inputs company contact job mail tel) \<longleftrightarrow>
     company \<noteq> [] \<and> contact \<noteq> [] \<and> job \<noteq> [] \<and> mail \<noteq> [] \<and> CHR ''@'' \<in> set mail \<and> tel \<noteq> []"
  by (simp add: validate_inputs_def Let_def)

lemma validate_inputs_rejects:
  "\<not> snd (validate_inputs company contact job mail tel) \<Longrightarrow>
     fst (validate_inputs company contact job mail tel) \<noteq> []"
  by (simp add: validate_inputs_def Let_def split: if_splits)

lemma save_me_money_rejected:
  "\<not> snd (validate_inputs (company_name c) (contact_name c) (job_title c) (email c) (phone c)) \<Longrightarrow>
   save_me_money rt c u =
     Inr (Rejected (fst (validate_inputs (company_name c) (contact_name c) (job_title c)
                           (email c) (phone c))))"
  by (cases "validate_inputs (company_name c) (contact_name c) (job_title c) (email c) (phone c)")
     (simp add: save_me_money_def)

lemma save_me_money_quoted:
  "snd (validate_inputs (company_name c) (contact_name c) (job_title c) (email c) (phone c)) \<Longrightarrow>
   \<exists>q. calculation rt u = Inr q \<and> save_me_money rt c u = Inr (Quoted q)"
proof -
  assume ok: "snd (validate_inputs (company_name c) (contact_name c) (job_title c)
                     (email c) (phone c))"
  obtain q where "calculation rt u = Inr q"
    using calculation_returns [of rt u] by blast
  with ok show ?thesis
    by (cases "validate_inputs (company_name c) (contact_name c) (job_title c) (email c) (phone c)")
       (simp add: save_me_money_def)
qed

text \<open>
  Claim C9. If one of the five contact fields is empty, or the email holds no \<open>@\<close>,
  validation returns False with at least one message, each failing field has its own
  message and no other field has one, and the handler shows the messages and computes no
  quote, whatever the rates and the usage. If the five fields are filled and the email
  holds an \<open>@\<close>, validation returns True with no message and the handler returns the
  quote of the calculation.
\<close>

theorem validation_is_fail_closed:
  "((company_name c = [] \<or> contact_name c = [] \<or> job_title c = [] \<or> email c = [] \<or>
     phone c = [] \<or> CHR ''@'' \<notin> set (email c)) \<longrightarrow>
      (\<exists>errors. errors \<noteq> [] \<and>
         validate_inputs (company_name c) (contact_name c) (job_title c) (email c) (phone c)
           = (errors, False) \<and>
         (\<forall>rt u. save_me_money rt c u = Inr (Rejected errors)) \<and>
         (''Company Name is required.'' \<in> set errors \<longleftrightarrow> company_name c = []) \<and>
         (''Contact Name is required.'' \<in> set errors \<longleftrightarrow> contact_name c = []) \<and>
         (''Job Title is required.'' \<in> set errors \<longleftrightarrow> job_title c = []) \<and>
         (''Email is required.'' \<in> set errors \<longleftrightarrow> email c = []) \<and>
         (''Please enter a valid email address.'' \<in> set errors \<longleftrightarrow>
            email c \<noteq> [] \<and> CHR ''@'' \<notin> set (email c)) \<and>
         (''Phone Number is required.'' \<in> set errors \<longleftrightarrow> phone c = []))) \<and>
   ((company_name c \<noteq> [] \<and> contact_name c \<noteq> [] \<and> job_title c \<noteq> [] \<and> email c \<noteq> [] \<and>
     phone c \<noteq> [] \<and> CHR ''@'' \<in> set (email c)) \<longrightarrow>
      validate_inputs (company_name c) (contact_name c) (job_title c) (email c) (phone c)
        = ([], True) \<and>
      (\<forall>rt u. \<exists>q. calculation rt u = Inr q \<and> save_me_money rt c u = Inr (Quoted q)))"
proof (intro conjI impI)
  let ?v = "validate_inputs (company_name c) (contact_name c) (job_title c) (email c) (phone c)"
  assume bad: "company_name c = [] \<or> contact_name c = [] \<or> job_title c = [] \<or> email c = [] \<or>
     phone c = [] \<or> CHR ''@'' \<notin> set (email c)"
  then have verdict: "\<not> snd ?v" by (auto simp: validate_inputs_verdict)
  then have shown: "fst ?v \<noteq> []" by (rule validate_inputs_rejects)
  from verdict have pair: "?v = (fst ?v, False)" by (cases ?v) simp
  from verdict have closed: "\<forall>rt u. save_me_money rt c u = Inr (Rejected (fst ?v))"
    using save_me_money_rejected by blast
  have company: "''Company Name is required.'' \<in> set (fst ?v) \<longleftrightarrow> company_name c = []"
    by (simp add: validate_inputs_messages)
  have contact: "''Contact Name is required.'' \<in> set (fst ?v) \<longleftrightarrow> contact_name c = []"
    by (simp add: validate_inputs_messages)
  have job: "''Job Title is required.'' \<in> set (fst ?v) \<longleftrightarrow> job_title c = []"
    by (simp add: validate_inputs_messages)
  have mail: "''Email is required.'' \<in> set (fst ?v) \<longleftrightarrow> email c = []"
    by (simp add: validate_inputs_messages)
  have format: "''Please enter a valid email address.'' \<in> set (fst ?v) \<longleftrightarrow>
            email c \<noteq> [] \<and> CHR ''@'' \<notin> set (email c)"
    by (simp add: validate_inputs_messages)
  have tel: "''Phone Number is required.'' \<in> set (fst ?v) \<longleftrightarrow> phone c = []"
    by (simp add: validate_inputs_messages)
  from shown pair closed company contact job mail format tel
  show "\<exists>errors. errors \<noteq> [] \<and> ?v = (errors, False) \<and>
         (\<forall>rt u. save_me_money rt c u = Inr (Rejected errors)) \<and>
         (''Company Name is required.'' \<in> set errors \<longleftrightarrow> company_name c = []) \<and>
         (''Contact Name is required.'' \<in> set errors \<longleftrightarrow> contact_name c = []) \<and>
         (''Job Title is required.'' \<in> set errors \<longleftrightarrow> job_title c = []) \<and>
         (''Email is required.'' \<in> set errors \<longleftrightarrow> email c = []) \<and>
         (''Please enter a valid email address.'' \<in> set errors \<longleftrightarrow>
            email c \<noteq> [] \<and> CHR ''@'' \<notin> set (email c)) \<and>
         (''Phone Number is required.'' \<in> set errors \<longleftrightarrow> phone c = [])"
    by blast
next
  let ?v = "validate_inputs (company_name c) (contact_name c) (job_title c) (email c) (phone c)"
  assume good: "company_name c \<noteq> [] \<and> contact_name c \<noteq> [] \<and> job_title c \<noteq> [] \<and>
     email c \<noteq> [] \<and> phone c \<noteq> [] \<and> CHR ''@'' \<in> set (email c)"
  then show "?v = ([], True)" by (simp add: validate_inputs_def)
  from good have "snd ?v" by (simp add: validate_inputs_verdict)
  then show "\<forall>rt u. \<exists>q. calculation rt u = Inr q \<and> save_me_money rt c u = Inr (Quoted q)"
    using save_me_money_quoted by blast
qed

theorem validation_is_fail_closed_witness:
  "(company_name \<lparr> company_name = ''Acme'', contact_name = [], job_title = ''CTO'',
                    email = ''ann.example.org'', phone = ''555'' \<rparr> = [] \<or>
    contact_name \<lparr> company_name = ''Acme'', contact_name = [], job_title = ''CTO'',
                    email = ''ann.example.org'', phone = ''555'' \<rparr> = []) \<and>
   save_me_money default_rates
     \<lparr> company_name = ''Acme'', contact_name = [], job_title = ''CTO'',
       email = ''ann.example.org'', phone = ''555'' \<rparr>
     \<lparr> vms = 10, storage = Finite 2, bandwidth = Finite 100, current_cost = Finite 5000 \<rparr>
   = Inr (Rejected [''Contact Name is required.'', ''Please enter a valid email address.''])"
proof -
  let ?c = "\<lparr> company_name = ''Acme'', contact_name = [], job_title = ''CTO'',
               email = ''ann.example.org'', phone = ''555'' \<rparr>"
  let ?u = "\<lparr> vms = 10, storage = Finite 2, bandwidth = Finite 100, current_cost = Finite 5000 \<rparr>"
  have bad: "company_name ?c = [] \<or> contact_name ?c = [] \<or> job_title ?c = [] \<or> email ?c = [] \<or>
     phone ?c = [] \<or> CHR ''@'' \<notin> set (email ?c)"
    by simp
  have shown: "validate_inputs (company_name ?c) (contact_name ?c) (job_title ?c) (email ?c)
                 (phone ?c)
      = ([''Contact Name is required.'', ''Please enter a valid email address.''], False)"
    by (simp add: validate_inputs_def)
  from bad validation_is_fail_closed [of ?c]
  obtain errors where "validate_inputs (company_name ?c) (contact_name ?c) (job_title ?c)
        (email ?c) (phone ?c) = (errors, False)"
    and "\<forall>rt u. save_me_money rt ?c u = Inr (Rejected errors)"
    by blast
  with shown have "save_me_money default_rates ?c ?u
      = Inr (Rejected [''Contact Name is required.'', ''Please enter a valid email address.''])"
    by simp
  then show ?thesis by simp
qed

text \<open>
  Claim C10. Presence is emptiness of the string and nothing more: a field made of one
  space is present. Whenever the five fields are non-empty strings and the email holds an
  \<open>@\<close>, validation returns True and the handler returns the quote. An empty email gets the
  message that the email is required and not the message about its format, which is for
  non-empty emails without \<open>@\<close>.
\<close>

theorem presence_is_nonemptiness:
  "((company \<noteq> [] \<and> contact \<noteq> [] \<and> job \<noteq> [] \<and> mail \<noteq> [] \<and> tel \<noteq> [] \<and>
     CHR ''@'' \<in> set mail) \<longrightarrow>
      snd (validate_inputs company contact job mail tel) \<and>
      (\<forall>rt u. \<exists>q. calculation rt u = Inr q \<and>
         save_me_money rt \<lparr> company_name = company, contact_name = contact, job_title = job,
                            email = mail, phone = tel \<rparr> u = Inr (Quoted q))) \<and>
   validate_inputs '' '' '' '' '' '' ''@'' '' '' = ([], True) \<and>
   (mail = [] \<longrightarrow>
      ''Email is required.'' \<in> set (fst (validate_inputs company contact job mail tel)) \<and>
      ''Please enter a valid email address.''
         \<notin> set (fst (validate_inputs company contact job mail tel))) \<and>
   (''Please enter a valid email address.''
       \<in> set (fst (validate_inputs company contact job mail tel)) \<longleftrightarrow>
    mail \<noteq> [] \<and> CHR ''@'' \<notin> set mail)"
proof (intro conjI impI)
  assume good: "company \<noteq> [] \<and> contact \<noteq> [] \<and> job \<noteq> [] \<and> mail \<noteq> [] \<and> tel \<noteq> [] \<and>
     CHR ''@'' \<in> set mail"
  then show ok: "snd (validate_inputs company contact job mail tel)"
    by (simp add: validate_inputs_verdict)
  let ?c = "\<lparr> company_name = company, contact_name = contact, job_title = job,
               email = mail, phone = tel \<rparr>"
  from ok have "snd (validate_inputs (company_name ?c) (contact_name ?c) (job_title ?c)
                       (email ?c) (phone ?c))"
    by simp
  then show "\<forall>rt u. \<exists>q. calculation rt u = Inr q \<and> save_me_money rt ?c u = Inr (Quoted q)"
    using save_me_money_quoted by blast
next
  show "validate_inputs '' '' '' '' '' '' ''@'' '' '' = ([], True)"
    by (simp add: validate_inputs_def)
next
  assume "mail = []"
  then show "''Email is required.'' \<in> set (fst (validate_inputs company contact job mail tel))"
    by (simp add: validate_inputs_messages)
next
  assume "mail = []"
  then show "''Please enter a valid email address.''
         \<notin> set (fst (validate_inputs company contact job mail tel))"
    by (simp add: validate_inputs_messages)
next
  show "''Please enter a valid email address.''
       \<in> set (fst (validate_inputs company contact job mail tel)) \<longleftrightarrow>
    mail \<noteq> [] \<and> CHR ''@'' \<notin> set mail"
    by (simp add: validate_inputs_messages)
qed

theorem presence_is_nonemptiness_witness:
  "('' '' \<noteq> [] \<and> '' '' \<noteq> [] \<and> '' '' \<noteq> [] \<and> '' @'' \<noteq> [] \<and> '' '' \<noteq> [] \<and>
    CHR ''@'' \<in> set '' @'') \<and>
   snd (validate_inputs '' '' '' '' '' '' '' @'' '' '') \<and>
   (\<exists>q. save_me_money default_rates
           \<lparr> company_name = '' '', contact_name = '' '', job_title = '' '',
             email = '' @'', phone = '' '' \<rparr>
           \<lparr> vms = 1, storage = Finite 0, bandwidth = Finite 0, current_cost = Finite 1000 \<rparr>
         = Inr (Quoted q))"
proof -
  have good: "'' '' \<noteq> [] \<and> '' '' \<noteq> [] \<and> '' '' \<noteq> [] \<and> '' @'' \<noteq> [] \<and> '' '' \<noteq> [] \<and>
    CHR ''@'' \<in> set '' @''"
    by simp
  from good presence_is_nonemptiness [of "'' ''" "'' ''" "'' ''" "'' @''" "'' ''"]
  show ?thesis by blast
qed

end
